theory Spec2Isabelle
  imports Complex_Main
begin

section \<open>Text helpers of the Go standard library\<close>

text \<open>
  Go strings are byte sequences; they are modelled as \<open>string\<close> (a list of 8-bit
  characters). White space is the ASCII white space of \<open>unicode.IsSpace\<close>
  (tab, line feed, vertical tab, form feed, carriage return, blank); the multi-byte
  UTF-8 encodings of the other Unicode space runes are read as ordinary bytes.
\<close>

definition isSpace :: "char \<Rightarrow> bool" where
  "isSpace c = (c \<in> set [CHR 0x09, CHR 0x0A, CHR 0x0B, CHR 0x0C, CHR 0x0D, CHR '' ''])"

text \<open>\<open>strings.HasPrefix\<close> and \<open>strings.Contains\<close>.\<close>

definition HasPrefix :: "string \<Rightarrow> string \<Rightarrow> bool" where
  "HasPrefix s pre = (take (length pre) s = pre)"

fun Contains :: "string \<Rightarrow> string \<Rightarrow> bool" where
  "Contains [] substr = (substr = [])"
| "Contains (c # cs) substr = (HasPrefix (c # cs) substr \<or> Contains cs substr)"

text \<open>\<open>strings.TrimSpace\<close>: leading and trailing white space removed.\<close>

definition TrimSpace :: "string \<Rightarrow> string" where
  "TrimSpace s = rev (dropWhile isSpace (rev (dropWhile isSpace s)))"

text \<open>\<open>strings.Join\<close>.\<close>

fun Join :: "string list \<Rightarrow> string \<Rightarrow> string" where
  "Join [] sep = []"
| "Join [x] sep = x"
| "Join (x # y # ys) sep = x @ sep @ Join (y # ys) sep"

text \<open>The verb \<open>%d\<close> of \<open>fmt.Sprintf\<close> on an \<open>int\<close>: decimal digits, a minus sign first
  when the number is negative.\<close>

fun nat_decimal :: "nat \<Rightarrow> string" where
  "nat_decimal n =
     (if n < 10 then [''0123456789'' ! n]
      else nat_decimal (n div 10) @ [''0123456789'' ! (n mod 10)])"

declare nat_decimal.simps [simp del]

definition fmt_d :: "int \<Rightarrow> string" where
  "fmt_d i = (if i < 0 then CHR ''-'' # nat_decimal (nat (- i)) else nat_decimal (nat i))"


section \<open>Data model (zpool.go)\<close>

datatype vdevType = vdevTypeNone | vdevTypeRaidz | vdevTypeSpare

text \<open>
  A disk holds a pointer \<open>vdev\<close> to the group it was parsed under, and reads only
  \<open>d.vdev.typev\<close> through it. The parser sets \<open>typev\<close> of a group right after it appends
  the group and before any disk of the group exists, and never writes it again, so the
  field \<open>disk_vdev_typev\<close> stores the value that \<open>d.vdev.typev\<close> yields.
  Go's \<open>int\<close> is 64 bits wide; counters are \<open>int\<close>, and the scanner that fills them
  rejects numbers outside the 64-bit range.
\<close>

record vdevDisk =
  disk_vdev_typev :: vdevType
  disk_name :: string
  disk_state :: string
  disk_read :: int
  disk_write :: int
  disk_checksum :: int
  disk_message :: string

record vdev =
  vdev_name :: string
  vdev_state :: string
  vdev_typev :: vdevType
  vdev_disks :: "vdevDisk list"
  vdev_read :: int
  vdev_write :: int
  vdev_checksum :: int

record pool =
  pool_name :: string
  pool_state :: string
  pool_status :: string
  pool_scanStatus :: string
  pool_read :: int
  pool_write :: int
  pool_checksum :: int
  pool_vdevs :: "vdev list"
  pool_errors :: string

text \<open>The zero values \<open>vdevDisk{}\<close>, \<open>vdev{}\<close> and \<open>pool{}\<close>.\<close>

definition vdevDisk_zero :: "vdevType \<Rightarrow> vdevDisk" where
  "vdevDisk_zero t = \<lparr>disk_vdev_typev = t, disk_name = [], disk_state = [], disk_read = 0,
     disk_write = 0, disk_checksum = 0, disk_message = []\<rparr>"

definition vdev_zero :: vdev where
  "vdev_zero = \<lparr>vdev_name = [], vdev_state = [], vdev_typev = vdevTypeNone, vdev_disks = [],
     vdev_read = 0, vdev_write = 0, vdev_checksum = 0\<rparr>"

definition pool_zero :: pool where
  "pool_zero = \<lparr>pool_name = [], pool_state = [], pool_status = [], pool_scanStatus = [],
     pool_read = 0, pool_write = 0, pool_checksum = 0, pool_vdevs = [], pool_errors = []\<rparr>"


subsection \<open>Health predicates and summaries\<close>

definition vdevDisk_Healthy :: "vdevDisk \<Rightarrow> bool" where
  "vdevDisk_Healthy d =
     (case disk_vdev_typev d of
        vdevTypeSpare \<Rightarrow> disk_state d = ''AVAIL''
      | _ \<Rightarrow> disk_state d = ''ONLINE'' \<and> disk_read d = 0 \<and> disk_write d = 0
             \<and> disk_checksum d = 0 \<and> disk_message d = [])"

definition vdevDisk_String :: "vdevDisk \<Rightarrow> string" where
  "vdevDisk_String d =
     (case disk_vdev_typev d of
        vdevTypeSpare \<Rightarrow> ''disk '' @ disk_name d @ '' - '' @ disk_state d @ '': '' @ disk_message d
      | _ \<Rightarrow> ''disk '' @ disk_name d @ '' - '' @ disk_state d @ '' ('' @ fmt_d (disk_read d)
             @ ''|'' @ fmt_d (disk_write d) @ ''|'' @ fmt_d (disk_checksum d) @ ''): ''
             @ disk_message d)"

definition vdev_Healthy :: "vdev \<Rightarrow> bool" where
  "vdev_Healthy v =
     foldl (\<lambda>healthy d. healthy \<and> vdevDisk_Healthy d)
       (case vdev_typev v of
          vdevTypeSpare \<Rightarrow> True
        | _ \<Rightarrow> vdev_state v = ''ONLINE'' \<and> vdev_read v = 0 \<and> vdev_write v = 0
               \<and> vdev_checksum v = 0)
       (vdev_disks v)"

definition vdev_String :: "vdev \<Rightarrow> string" where
  "vdev_String v = ''vdev '' @ vdev_name v @ '' - '' @ vdev_state v @ '' ('' @ fmt_d (vdev_read v)
     @ ''|'' @ fmt_d (vdev_write v) @ ''|'' @ fmt_d (vdev_checksum v) @ '')''"

definition pool_Health :: "pool \<Rightarrow> bool" where
  "pool_Health p =
     foldl (\<lambda>healthy v. healthy \<and> vdev_Healthy v)
       (pool_state p = ''ONLINE'' \<and> pool_read p = 0 \<and> pool_write p = 0 \<and> pool_checksum p = 0
        \<and> pool_errors p = ''errors: No known data errors'')
       (pool_vdevs p)"

definition pool_String :: "pool \<Rightarrow> string" where
  "pool_String p = ''pool '' @ pool_name p @ '' - '' @ pool_state p @ '' ('' @ fmt_d (pool_read p)
     @ ''|'' @ fmt_d (pool_write p) @ ''|'' @ fmt_d (pool_checksum p) @ ''): '' @ pool_errors p"


section \<open>The evaluator: the loop of checkPoolStatus (main.go)\<close>

text \<open>
  The three nested \<open>range\<close> loops, each threading the slice \<open>errs\<close>. The disks of a
  group are visited whether or not the group's own line was appended. The scrub test
  appends three strings: \<open>append(errs, "scrub of %s encountered errors: %s", p.name,
  p.scanStatus)\<close> has no \<open>Sprintf\<close> around its arguments.
\<close>

definition checkDisks :: "string list \<Rightarrow> vdevDisk list \<Rightarrow> string list" where
  "checkDisks errs ds =
     foldl (\<lambda>errs disk. if \<not> vdevDisk_Healthy disk then errs @ [vdevDisk_String disk] else errs)
       errs ds"

definition checkVdevs :: "string list \<Rightarrow> vdev list \<Rightarrow> string list" where
  "checkVdevs errs vs =
     foldl (\<lambda>errs v.
        checkDisks (if \<not> vdev_Healthy v then errs @ [vdev_String v] else errs) (vdev_disks v))
       errs vs"

definition scrubFault :: "pool \<Rightarrow> bool" where
  "scrubFault p = (Contains (pool_scanStatus p) ''scrub repaired''
     \<and> \<not> Contains (pool_scanStatus p) ''with 0 errors'')"

definition checkPool :: "string list \<Rightarrow> pool \<Rightarrow> string list" where
  "checkPool errs p =
     (let errs1 = (if \<not> pool_Health p then checkVdevs (errs @ [pool_String p]) (pool_vdevs p)
                   else errs)
      in if scrubFault p
         then errs1 @ [''scrub of %s encountered errors: %s'', pool_name p, pool_scanStatus p]
         else errs1)"

definition checkPools :: "pool list \<Rightarrow> string list" where
  "checkPools pools = foldl checkPool [] pools"


section \<open>Scanning with a format: fmt.Sscanf\<close>

text \<open>
  The formats of this program use blanks, literal text and the verbs \<open>%s\<close> and \<open>%d\<close>.
  Each piece takes the input that is left and returns what is left after it, or the
  error that \<open>Sscanf\<close> returns. Input beyond the end of the format is ignored. Where
  the input ends, a verb fails with \<open>io.EOF\<close> and literal text with
  \<open>io.ErrUnexpectedEOF\<close>.
\<close>

datatype scan_error =
    ErrEOF
  | ErrUnexpectedEOF
  | ErrInputMismatch
  | ErrExpectedSpace
  | ErrNewlineInInput
  | ErrUnexpectedNewline
  | ErrExpectedInteger
  | ErrSyntax string
  | ErrRange string


definition andThen :: "'e + 'a \<Rightarrow> ('a \<Rightarrow> 'e + 'b) \<Rightarrow> 'e + 'b" where
  "andThen r f = (case r of Inl e \<Rightarrow> Inl e | Inr a \<Rightarrow> f a)"

text \<open>A blank in the format: at least one space of the input, or its end; then every
  further space up to a line feed.\<close>

definition format_space :: "string \<Rightarrow> scan_error + string" where
  "format_space inp =
     (case inp of
        [] \<Rightarrow> Inr []
      | c # cs \<Rightarrow>
          if \<not> isSpace c then Inl ErrExpectedSpace
          else if c = CHR 0x0A then Inl ErrNewlineInInput
          else Inr (dropWhile (\<lambda>c. isSpace c \<and> c \<noteq> CHR 0x0A) cs))"

text \<open>Literal text of the format: each character must be the next one of the input.\<close>

fun format_literal :: "string \<Rightarrow> string \<Rightarrow> scan_error + string" where
  "format_literal [] inp = Inr inp"
| "format_literal (f # fs) inp =
     (case inp of
        [] \<Rightarrow> Inl ErrUnexpectedEOF
      | c # cs \<Rightarrow> if c = f then format_literal fs cs else Inl ErrInputMismatch)"

fun SkipSpace :: "string \<Rightarrow> scan_error + string" where
  "SkipSpace [] = Inr []"
| "SkipSpace (c # cs) =
     (if c = CHR 0x0A then Inl ErrUnexpectedNewline
      else if isSpace c then SkipSpace cs
      else Inr (c # cs))"

text \<open>\<open>%s\<close>: the next word, up to the next space.\<close>

definition verb_s :: "string \<Rightarrow> scan_error + (string \<times> string)" where
  "verb_s inp =
     andThen (SkipSpace inp) (\<lambda>r.
       if r = [] then Inl ErrEOF
       else Inr (takeWhile (\<lambda>c. \<not> isSpace c) r, dropWhile (\<lambda>c. \<not> isSpace c) r))"

text \<open>\<open>strconv.ParseInt(tok, 10, 64)\<close> on a token made of an optional sign and at least
  one character of \<open>0123456789_\<close>: an underscore is a syntax error in base 10.\<close>

definition isDigit :: "char \<Rightarrow> bool" where
  "isDigit c = (c \<in> set ''0123456789'')"

definition decimal_value :: "string \<Rightarrow> int" where
  "decimal_value ds = foldl (\<lambda>n c. 10 * n + (of_char c - 48)) 0 ds"

definition ParseInt :: "string \<Rightarrow> scan_error + int" where
  "ParseInt tok =
     (let neg = (tok \<noteq> [] \<and> hd tok = CHR ''-'');
          ds = (if tok \<noteq> [] \<and> (hd tok = CHR ''+'' \<or> hd tok = CHR ''-'') then tl tok else tok)
      in if ds = [] \<or> \<not> list_all isDigit ds then Inl (ErrSyntax tok)
         else let un = decimal_value ds
              in if neg then (if un > 2 ^ 63 then Inl (ErrRange tok) else Inr (- un))
                 else (if un \<ge> 2 ^ 63 then Inl (ErrRange tok) else Inr un))"

text \<open>\<open>%d\<close>: spaces, an optional sign, then digits (the scanner also collects
  underscores, which \<open>ParseInt\<close> then refuses).\<close>

definition verb_d :: "string \<Rightarrow> scan_error + (int \<times> string)" where
  "verb_d inp =
     andThen (SkipSpace inp) (\<lambda>r.
       if r = [] then Inl ErrEOF
       else
         let sgn = (if hd r = CHR ''+'' \<or> hd r = CHR ''-'' then [hd r] else []);
             r1 = (if hd r = CHR ''+'' \<or> hd r = CHR ''-'' then tl r else r);
             numc = (\<lambda>c. isDigit c \<or> c = CHR ''_'')
         in if r1 = [] then Inl ErrEOF
            else if \<not> numc (hd r1) then Inl ErrExpectedInteger
            else andThen (ParseInt (sgn @ takeWhile numc r1)) (\<lambda>i. Inr (i, dropWhile numc r1)))"

text \<open>The six calls of the program, by format.\<close>

definition Sscanf_pool :: "string \<Rightarrow> scan_error + string" where
  \<comment> \<open>\<open>fmt.Sscanf(line, " pool: %s", &p.name)\<close>\<close>
  "Sscanf_pool line =
     andThen (format_space line) (\<lambda>r.
     andThen (format_literal ''pool:'' r) (\<lambda>r.
     andThen (format_space r) (\<lambda>r.
     andThen (verb_s r) (\<lambda>(name, r). Inr name))))"

definition Sscanf_state :: "string \<Rightarrow> scan_error + string" where
  \<comment> \<open>\<open>fmt.Sscanf(trimmedLine, "state: %s", &p.state)\<close>\<close>
  "Sscanf_state line =
     andThen (format_literal ''state:'' line) (\<lambda>r.
     andThen (format_space r) (\<lambda>r.
     andThen (verb_s r) (\<lambda>(state, r). Inr state)))"

definition Sscanf_scan :: "string \<Rightarrow> scan_error + string" where
  \<comment> \<open>\<open>fmt.Sscanf(line, " scan: %s", &p.scanStatus)\<close>\<close>
  "Sscanf_scan line =
     andThen (format_space line) (\<lambda>r.
     andThen (format_literal ''scan:'' r) (\<lambda>r.
     andThen (format_space r) (\<lambda>r.
     andThen (verb_s r) (\<lambda>(s, r). Inr s))))"

definition Sscanf_s :: "string \<Rightarrow> scan_error + string" where
  \<comment> \<open>\<open>fmt.Sscanf(line, " %s", &v.name)\<close>\<close>
  "Sscanf_s line =
     andThen (format_space line) (\<lambda>r.
     andThen (verb_s r) (\<lambda>(name, r). Inr name))"

definition Sscanf_s_s :: "string \<Rightarrow> scan_error + (string \<times> string)" where
  \<comment> \<open>\<open>fmt.Sscanf(line, " %s %s", &disk.name, &disk.state)\<close>\<close>
  "Sscanf_s_s line =
     andThen (format_space line) (\<lambda>r.
     andThen (verb_s r) (\<lambda>(name, r).
     andThen (format_space r) (\<lambda>r.
     andThen (verb_s r) (\<lambda>(state, r). Inr (name, state)))))"

definition Sscanf_s_s_d_d_d :: "string \<Rightarrow> scan_error + (string \<times> string \<times> int \<times> int \<times> int)" where
  \<comment> \<open>\<open>fmt.Sscanf(line, " %s %s %d %d %d", &name, &state, &read, &write, &checksum)\<close>\<close>
  "Sscanf_s_s_d_d_d line =
     andThen (format_space line) (\<lambda>r.
     andThen (verb_s r) (\<lambda>(name, r).
     andThen (format_space r) (\<lambda>r.
     andThen (verb_s r) (\<lambda>(state, r).
     andThen (format_space r) (\<lambda>r.
     andThen (verb_d r) (\<lambda>(rd, r).
     andThen (format_space r) (\<lambda>r.
     andThen (verb_d r) (\<lambda>(wr, r).
     andThen (format_space r) (\<lambda>r.
     andThen (verb_d r) (\<lambda>(ck, r). Inr (name, state, rd, wr, ck)))))))))))"


section \<open>The two regular expressions of zpool.go\<close>

text \<open>
  Go's \<open>regexp\<close> finds the leftmost match and, among those, the one a backtracking
  search meets first. In both expressions every repeated class is followed by a class
  disjoint from it, so a repetition always takes a whole run of its class; the only
  place where the search gives characters back is the last \<open>\s+\<close> before \<open>(.+)$\<close>.
  The classes are those of RE2: \<open>\d\<close> is \<open>[0-9]\<close>, \<open>\w\<close> is \<open>[0-9A-Za-z_]\<close>,
  \<open>\s\<close> is \<open>[\t\n\f\r ]\<close>, and \<open>.\<close> is any character but a line feed.
\<close>

definition re_w :: "char \<Rightarrow> bool" where
  "re_w c = (c \<in> set ''0123456789ABCDEFGHIJKLMNOPQRSTUVWXYZ_abcdefghijklmnopqrstuvwxyz'')"

definition re_d :: "char \<Rightarrow> bool" where
  "re_d c = (c \<in> set ''0123456789'')"

definition re_s :: "char \<Rightarrow> bool" where
  "re_s c = (c \<in> set [CHR 0x09, CHR 0x0A, CHR 0x0C, CHR 0x0D, CHR '' ''])"

definition re_upper :: "char \<Rightarrow> bool" where
  "re_upper c = (c \<in> set ''ABCDEFGHIJKLMNOPQRSTUVWXYZ'')"

text \<open>\<open>run P\<close>: one or more characters of the class, the whole run; \<open>exactly P n\<close>:
  a repetition \<open>{n}\<close>; \<open>lit\<close>: literal text. Each returns the rest of the input.\<close>

definition run :: "(char \<Rightarrow> bool) \<Rightarrow> string \<Rightarrow> string option" where
  "run P s = (if s \<noteq> [] \<and> P (hd s) then Some (dropWhile P s) else None)"

definition exactly :: "(char \<Rightarrow> bool) \<Rightarrow> nat \<Rightarrow> string \<Rightarrow> string option" where
  "exactly P n s = (if n \<le> length s \<and> list_all P (take n s) then Some (drop n s) else None)"

definition lit :: "string \<Rightarrow> string \<Rightarrow> string option" where
  "lit t s = (if HasPrefix s t then Some (drop (length t) s) else None)"

text \<open>\<open>diskRe = ^\s+(\w{8}-\w{4}-\w{4}-\w{4}-\w{12}\s+|nvme\w+|(\w+\s+){2}(\s+\d+){3}\s+\w+)\<close>.
  The three alternatives start with a word character, so \<open>^\s+\<close> takes all leading
  white space. In the third, \<open>\s+\<close> of the second word and \<open>\s+\<close> of the first number
  share one run of at least two.\<close>

definition diskRe_uuid :: "string \<Rightarrow> bool" where
  "diskRe_uuid r =
     (Option.bind (exactly re_w 8 r) (\<lambda>r.
      Option.bind (lit ''-'' r) (\<lambda>r.
      Option.bind (exactly re_w 4 r) (\<lambda>r.
      Option.bind (lit ''-'' r) (\<lambda>r.
      Option.bind (exactly re_w 4 r) (\<lambda>r.
      Option.bind (lit ''-'' r) (\<lambda>r.
      Option.bind (exactly re_w 4 r) (\<lambda>r.
      Option.bind (lit ''-'' r) (\<lambda>r.
      Option.bind (exactly re_w 12 r) (\<lambda>r.
      run re_s r))))))))) \<noteq> None)"

definition diskRe_nvme :: "string \<Rightarrow> bool" where
  "diskRe_nvme r = (Option.bind (lit ''nvme'' r) (run re_w) \<noteq> None)"

definition diskRe_plain :: "string \<Rightarrow> bool" where
  "diskRe_plain r =
     (Option.bind (run re_w r) (\<lambda>r.
      Option.bind (run re_s r) (\<lambda>r.
      Option.bind (run re_w r) (\<lambda>r.
      Option.bind (if 2 \<le> length (takeWhile re_s r) then Some (dropWhile re_s r) else None) (\<lambda>r.
      Option.bind (run re_d r) (\<lambda>r.
      Option.bind (run re_s r) (\<lambda>r.
      Option.bind (run re_d r) (\<lambda>r.
      Option.bind (run re_s r) (\<lambda>r.
      Option.bind (run re_d r) (\<lambda>r.
      Option.bind (run re_s r) (\<lambda>r.
      run re_w r)))))))))) \<noteq> None)"

definition diskRe_MatchString :: "string \<Rightarrow> bool" where
  "diskRe_MatchString line =
     (case run re_s line of
        None \<Rightarrow> False
      | Some r \<Rightarrow> diskRe_uuid r \<or> diskRe_nvme r \<or> diskRe_plain r)"

text \<open>\<open>diskMessageRe = (?:(?:\d+\s+){3}|^\w+\s+[A-Z]+\s+)(.+)$\<close>; the result is the
  first group of \<open>FindStringSubmatch\<close>, or \<open>None\<close> when nothing matches.
  \<open>message_tail\<close> is the last \<open>\s+\<close> with \<open>(.+)$\<close>: the group is what follows the white
  space; when nothing follows, the search gives the last white-space character back
  to the group.\<close>

definition message_tail :: "string \<Rightarrow> string option" where
  "message_tail r =
     (let w = takeWhile re_s r; rest = dropWhile re_s r
      in if w = [] then None
         else if rest \<noteq> [] then (if CHR 0x0A \<in> set rest then None else Some rest)
         else if 2 \<le> length w \<and> last w \<noteq> CHR 0x0A then Some [last w]
         else None)"

definition message_counters :: "string \<Rightarrow> string option" where
  \<comment> \<open>\<open>(?:\d+\s+){3}(.+)$\<close> from the start of the given text\<close>
  "message_counters r =
     Option.bind (run re_d r) (\<lambda>r.
     Option.bind (run re_s r) (\<lambda>r.
     Option.bind (run re_d r) (\<lambda>r.
     Option.bind (run re_s r) (\<lambda>r.
     Option.bind (run re_d r) message_tail))))"

definition message_state :: "string \<Rightarrow> string option" where
  \<comment> \<open>\<open>^\w+\s+[A-Z]+\s+(.+)$\<close>, at the start of the line only\<close>
  "message_state r =
     Option.bind (run re_w r) (\<lambda>r.
     Option.bind (run re_s r) (\<lambda>r.
     Option.bind (run re_upper r) message_tail))"

fun message_search :: "string \<Rightarrow> string option" where
  "message_search [] = None"
| "message_search (c # cs) =
     (case message_counters (c # cs) of
        Some m \<Rightarrow> Some m
      | None \<Rightarrow> message_search cs)"

definition diskMessageRe_FindStringSubmatch :: "string \<Rightarrow> string option" where
  "diskMessageRe_FindStringSubmatch line =
     (case message_counters line of
        Some m \<Rightarrow> Some m
      | None \<Rightarrow>
         (case message_state line of
            Some m \<Rightarrow> Some m
          | None \<Rightarrow> message_search (tl line)))"


section \<open>The line scanner: bufio.Scanner with ScanLines\<close>

text \<open>
  The scanner is modelled by the list of lines it has not delivered yet:
  \<open>scanner.Scan()\<close> removes the head. \<open>ScanLines\<close> cuts the text at each line
  feed, drops one carriage return at the end of a line, and delivers a last line
  without line feed only when it is not empty. Every line is taken to be shorter
  than \<open>bufio.MaxScanTokenSize\<close> (64 KiB), so the scanner never stops early.
\<close>

definition dropCR :: "string \<Rightarrow> string" where
  "dropCR l = (if l \<noteq> [] \<and> last l = CHR 0x0D then butlast l else l)"

fun split_lines :: "string \<Rightarrow> string \<Rightarrow> string list" where
  "split_lines cur [] = (if cur = [] then [] else [dropCR cur])"
| "split_lines cur (c # cs) =
     (if c = CHR 0x0A then dropCR cur # split_lines [] cs else split_lines (cur @ [c]) cs)"

definition ScanLines :: "string \<Rightarrow> string list" where
  "ScanLines text = split_lines [] text"


section \<open>The pool-status parser (zpool.go)\<close>

datatype zpoolParseState =
    zpoolParseStart
  | zpoolParseStatus
  | zpoolParseScan
  | zpoolParsePool
  | zpoolParseVdev
  | zpoolParseDisk
  | zpoolParseErrors

text \<open>
  The errors the program builds, one constructor for each place that makes one.
  \<open>RuntimePanic\<close> stands for a run that Go aborts: a nil pointer dereferenced or an
  index out of range.
\<close>

datatype error =
    ParseError scan_error string
  | PoolNameMismatch string string
  | PoolStateMismatch string string
  | HealthFault string
  | ExecError string
  | AtoiError string
  | SmartError string string
  | RuntimePanic


text \<open>\<open>p = &pools[len(pools)-1]\<close>: writes through \<open>p\<close> change the last pool of the
  slice that \<open>parsePools\<close> holds.\<close>

definition set_last :: "'a list \<Rightarrow> 'a \<Rightarrow> 'a list" where
  "set_last xs x = butlast xs @ [x]"

text \<open>
  One call of \<open>parsePoolState\<close>. The result is the pool returned (\<open>newPool\<close>, if any),
  the slice of pools after the writes through \<open>p\<close>, the scanner, and the parse state.
  The recursive calls are the two places where a line is handed to another state.
\<close>

function parsePoolState ::
  "pool list \<Rightarrow> string list \<Rightarrow> string \<Rightarrow> zpoolParseState
     \<Rightarrow> error + (pool option \<times> pool list \<times> string list \<times> zpoolParseState)" where
  "parsePoolState pools scanner line zpoolParseStart =
     (case Sscanf_pool line of
        Inl e \<Rightarrow> Inl (ParseError e line)
      | Inr name \<Rightarrow> Inr (Some (pool_zero\<lparr>pool_name := name\<rparr>), pools, scanner, zpoolParseStatus))"
| "parsePoolState pools scanner line zpoolParseStatus =
     (let trimmedLine = TrimSpace line
      in if HasPrefix trimmedLine ''scan: '' then parsePoolState pools scanner line zpoolParseScan
         else if HasPrefix trimmedLine ''action: '' then Inr (None, pools, scanner, zpoolParseStatus)
         else if pools = [] then Inl RuntimePanic
         else if HasPrefix trimmedLine ''status: ''
           then Inr (None, set_last pools ((last pools)\<lparr>pool_status := trimmedLine\<rparr>), scanner,
                     zpoolParseStatus)
         else if HasPrefix trimmedLine ''state: ''
           then (case Sscanf_state trimmedLine of
                   Inl e \<Rightarrow> Inl (ParseError e line)
                 | Inr state \<Rightarrow>
                     Inr (None, set_last pools ((last pools)\<lparr>pool_state := state\<rparr>), scanner,
                          zpoolParseStatus))
         else Inr (None,
                   set_last pools
                     ((last pools)\<lparr>pool_status := pool_status (last pools) @ '' '' @ line\<rparr>),
                   scanner, zpoolParseStatus))"
| "parsePoolState pools scanner line zpoolParseScan =
     (if pools = [] then Inl RuntimePanic
      else case Sscanf_scan line of
             Inl e \<Rightarrow> Inl (ParseError e line)
           | Inr scanStatus \<Rightarrow>
               Inr (None, set_last pools ((last pools)\<lparr>pool_scanStatus := scanStatus\<rparr>),
                    drop 3 scanner, zpoolParsePool))"
| "parsePoolState pools scanner line zpoolParsePool =
     (if pools = [] then Inl RuntimePanic
      else case Sscanf_s_s_d_d_d line of
             Inl e \<Rightarrow> Inl (ParseError e line)
           | Inr (name, state, rd, wr, ck) \<Rightarrow>
               if name \<noteq> pool_name (last pools)
                 then Inl (PoolNameMismatch name (pool_name (last pools)))
               else if state \<noteq> pool_state (last pools)
                 then Inl (PoolStateMismatch state (pool_state (last pools)))
               else Inr (None,
                         set_last pools
                           ((last pools)\<lparr>pool_read := rd, pool_write := wr, pool_checksum := ck\<rparr>),
                         scanner, zpoolParseVdev))"
| "parsePoolState pools scanner line zpoolParseVdev =
     (if pools = [] then Inl RuntimePanic
      else
        let p = last pools;
            add = (\<lambda>v. Inr (None, set_last pools (p\<lparr>pool_vdevs := pool_vdevs p @ [v]\<rparr>), scanner,
                             zpoolParseDisk))
        in if Contains line ''mirror-'' \<or> Contains line ''raidz''
             then (case Sscanf_s_s_d_d_d line of
                     Inl e \<Rightarrow> Inl (ParseError e line)
                   | Inr (name, state, rd, wr, ck) \<Rightarrow>
                       add (vdev_zero\<lparr>vdev_name := name, vdev_state := state,
                              vdev_typev := vdevTypeRaidz, vdev_read := rd, vdev_write := wr,
                              vdev_checksum := ck\<rparr>))
           else if Contains line ''spares''
             then (case Sscanf_s line of
                     Inl e \<Rightarrow> Inl (ParseError e line)
                   | Inr name \<Rightarrow> add (vdev_zero\<lparr>vdev_name := name, vdev_typev := vdevTypeSpare\<rparr>))
           else add vdev_zero)"
| "parsePoolState pools scanner line zpoolParseDisk =
     (if \<not> diskRe_MatchString line
        then (if length (TrimSpace line) = 0 then Inr (None, pools, scanner, zpoolParseErrors)
              else parsePoolState pools scanner line zpoolParseVdev)
      else if pools = [] then Inl RuntimePanic
      else if pool_vdevs (last pools) = [] then Inl RuntimePanic
      else
        let p = last pools;
            v = last (pool_vdevs p);
            disk0 = vdevDisk_zero (vdev_typev v);
            add = (\<lambda>disk.
              let disk' = (case diskMessageRe_FindStringSubmatch line of
                             Some m \<Rightarrow> disk\<lparr>disk_message := m\<rparr>
                           | None \<Rightarrow> disk)
              in Inr (None,
                      set_last pools
                        (p\<lparr>pool_vdevs :=
                             set_last (pool_vdevs p) (v\<lparr>vdev_disks := vdev_disks v @ [disk']\<rparr>)\<rparr>),
                      scanner, zpoolParseDisk))
        in case vdev_typev v of
             vdevTypeRaidz \<Rightarrow>
               (case Sscanf_s_s_d_d_d line of
                  Inl e \<Rightarrow> Inl (ParseError e line)
                | Inr (name, state, rd, wr, ck) \<Rightarrow>
                    add (disk0\<lparr>disk_name := name, disk_state := state, disk_read := rd,
                           disk_write := wr, disk_checksum := ck\<rparr>))
           | vdevTypeSpare \<Rightarrow>
               (case Sscanf_s_s line of
                  Inl e \<Rightarrow> Inl (ParseError e line)
                | Inr (name, state) \<Rightarrow> add (disk0\<lparr>disk_name := name, disk_state := state\<rparr>))
           | vdevTypeNone \<Rightarrow> add disk0)"
| "parsePoolState pools scanner line zpoolParseErrors =
     (if length (TrimSpace line) = 0 then Inr (None, pools, scanner, zpoolParseStart)
      else if pools = [] then Inl RuntimePanic
      else if pool_errors (last pools) = []
        then Inr (None, set_last pools ((last pools)\<lparr>pool_errors := line\<rparr>), scanner,
                  zpoolParseErrors)
      else Inr (None, set_last pools ((last pools)\<lparr>pool_errors := [CHR 0x0A] @ line\<rparr>), scanner,
                zpoolParseErrors))"
  by pat_completeness auto
termination
  by (relation "measure (\<lambda>(pools, scanner, line, st).
        if st = zpoolParseStatus \<or> st = zpoolParseDisk then 1 else 0)") auto


text \<open>
  \<open>parsePools\<close>: the loop \<open>for scanner.Scan()\<close>. A pool returned by a call is appended
  to the slice; the first error ends the run and no pool is returned with it.
\<close>

function parseLoop :: "pool list \<Rightarrow> string list \<Rightarrow> zpoolParseState \<Rightarrow> error + pool list" where
  "parseLoop pools [] st = Inr pools"
| "parseLoop pools (line # scanner) st =
     (case parsePoolState pools scanner line st of
        Inl err \<Rightarrow> Inl err
      | Inr (newPool, pools', scanner', st') \<Rightarrow>
          parseLoop (case newPool of None \<Rightarrow> pools' | Some np \<Rightarrow> pools' @ [np]) scanner' st')"
  by pat_completeness auto
termination
proof -
  have len: "length sc' \<le> length sc"
    if "parsePoolState pools sc line st = Inr (np, pools', sc', st')"
    for pools sc line st np pools' sc' st'
    using that
    by (induction pools sc line st rule: parsePoolState.induct)
       (auto simp: Let_def split: sum.splits prod.splits vdevType.splits option.splits if_splits)
  show ?thesis
    by (relation "measure (\<lambda>(pools, scanner, st). length scanner)") (auto dest!: len)
qed

definition parsePools :: "string \<Rightarrow> error + pool list" where
  "parsePools zpoolStatus = parseLoop [] (ScanLines zpoolStatus) zpoolParseStart"

text \<open>
  An \<open>executer\<close> runs a command with arguments and returns its output or an error.
  \<open>checkPoolStatus\<close> returns the error, \<open>None\<close> for \<open>nil\<close>.
\<close>

type_synonym executer = "string \<Rightarrow> string list \<Rightarrow> string + string"

text \<open>\<open>healthVerdict\<close> is the part of \<open>checkPoolStatus\<close> after the parse: the loops
  over the pools and the error built from \<open>errs\<close>.\<close>

definition healthVerdict :: "pool list \<Rightarrow> error option" where
  "healthVerdict pools =
     (let errs = checkPools pools
      in if length errs > 0 then Some (HealthFault (Join errs [CHR 0x0A])) else None)"

definition checkPoolStatus :: "executer \<Rightarrow> error option" where
  "checkPoolStatus e =
     (case e ''/sbin/zpool'' [''status''] of
        Inl err \<Rightarrow> Some (ExecError err)
      | Inr zStatus \<Rightarrow>
          (case parsePools zStatus of
             Inl err \<Rightarrow> Some err
           | Inr pools \<Rightarrow> healthVerdict pools))"


section \<open>The self-test analyzer: checkSmartStatus (main.go)\<close>

subsection \<open>Single-precision arithmetic\<close>

text \<open>
  \<open>float32(fails)/float32(len(matches)) >= smartThreshold\<close> is computed in IEEE 754
  single precision: 24 significant bits, round to nearest, ties to even. A finite
  value is the rational it denotes (the sign of zero is not kept); \<open>0/0\<close> is not a
  number, and a comparison with it is false.
\<close>

datatype float32 = F32 rat | F32_PosInf | F32_NegInf | F32_NaN

definition round_half_even :: "rat \<Rightarrow> int" where
  "round_half_even x =
     (let f = \<lfloor>x\<rfloor>; d = x - of_int f
      in if d < 1 / 2 then f else if 1 / 2 < d then f + 1 else if even f then f else f + 1)"

function bit_length :: "int \<Rightarrow> int" where
  "bit_length n = (if n \<le> 0 then 0 else 1 + bit_length (n div 2))"
  by pat_completeness auto
termination
  by (relation "measure nat") auto

declare bit_length.simps [simp del]

text \<open>\<open>ilog2 x\<close> is the integer \<open>k\<close> with \<open>2\<^sup>k \<le> x < 2\<^sup>k\<^sup>+\<^sup>1\<close>, for \<open>x > 0\<close>.\<close>

definition ilog2 :: "rat \<Rightarrow> int" where
  "ilog2 x =
     (let (p, q) = quotient_of x;
          k = bit_length p - bit_length q
      in if 2 powi k \<le> x then k else k - 1)"

definition float32_of_rat :: "rat \<Rightarrow> float32" where
  "float32_of_rat x =
     (if x = 0 then F32 0
      else
        let a = \<bar>x\<bar>;
            e = max (ilog2 a - 23) (- 149);
            r = of_int (round_half_even (a / 2 powi e)) * 2 powi e
        in if 2 ^ 128 \<le> r then (if x < 0 then F32_NegInf else F32_PosInf)
           else F32 (if x < 0 then - r else r))"

definition float32_of_int :: "int \<Rightarrow> float32" where
  "float32_of_int i = float32_of_rat (of_int i)"

fun float32_div :: "float32 \<Rightarrow> float32 \<Rightarrow> float32" where
  "float32_div (F32 x) (F32 y) =
     (if y = 0 then (if x = 0 then F32_NaN else if 0 < x then F32_PosInf else F32_NegInf)
      else float32_of_rat (x / y))"
| "float32_div (F32 x) F32_PosInf = F32 0"
| "float32_div (F32 x) F32_NegInf = F32 0"
| "float32_div F32_PosInf (F32 y) = (if y < 0 then F32_NegInf else F32_PosInf)"
| "float32_div F32_NegInf (F32 y) = (if y < 0 then F32_PosInf else F32_NegInf)"
| "float32_div a b = F32_NaN"

fun float32_ge :: "float32 \<Rightarrow> float32 \<Rightarrow> bool" where
  "float32_ge (F32 x) (F32 y) = (y \<le> x)"
| "float32_ge F32_NaN b = False"
| "float32_ge a F32_NaN = False"
| "float32_ge F32_PosInf b = True"
| "float32_ge a F32_NegInf = True"
| "float32_ge a b = False"

definition smartThreshold :: rat where
  "smartThreshold = 5 / 100"

subsection \<open>The analyzer\<close>

text \<open>\<open>strconv.Atoi\<close>: an optional sign and decimal digits, within 64 bits.\<close>

definition Atoi :: "string \<Rightarrow> error + int" where
  "Atoi s =
     (case ParseInt s of
        Inr i \<Rightarrow> Inr i
      | Inl (ErrRange t) \<Rightarrow>
          Inl (AtoiError (''strconv.Atoi: parsing \"'' @ s @ ''\": value out of range''))
      | Inl e \<Rightarrow> Inl (AtoiError (''strconv.Atoi: parsing \"'' @ s @ ''\": invalid syntax'')))"

text \<open>
  \<open>smartRe.FindAllStringSubmatch(status, -1)\<close> is the parameter \<open>findAll\<close>: for each match
  of \<open>#\s*\d+\s*.+?\s{2,}(.+?)\s*\w*00%\s*(\d+)\<close> in the text, in order, the pair of
  its two groups \<open>(match[1], match[2])\<close>.

  The inner loop over the rows of one disk. An age that \<open>Atoi\<close> refuses ends the whole
  function with that error and the ages found so far (the results are named, and the
  bare \<open>return\<close> returns them).
\<close>

fun rowsLoop ::
  "nat \<Rightarrow> (string \<times> string) list \<Rightarrow> int \<Rightarrow> string \<Rightarrow> int \<Rightarrow> int
     \<Rightarrow> (error \<times> int \<times> int) + (int \<times> string \<times> int \<times> int)" where
  "rowsLoop j [] fails latestFail oldest youngest = Inr (fails, latestFail, oldest, youngest)"
| "rowsLoop j (match # matches) fails latestFail oldest youngest =
     (let failed = (fst match \<noteq> ''Completed without error'');
          latestFail' = (if failed then fst match else latestFail);
          fails' = (if failed then fails + 1 else fails)
      in case Atoi (snd match) of
           Inl err \<Rightarrow> Inl (err, oldest, youngest)
         | Inr age \<Rightarrow>
             rowsLoop (j + 1) matches fails' latestFail'
               (if j = 0 \<and> age > oldest then age else oldest)
               (if j = 0 \<and> age < youngest then age else youngest))"

text \<open>The test \<open>float32(fails)/float32(len(matches)) >= smartThreshold\<close>.\<close>

definition thresholdBreach :: "int \<Rightarrow> nat \<Rightarrow> bool" where
  "thresholdBreach fails n =
     float32_ge (float32_div (float32_of_int fails) (float32_of_int (int n)))
       (float32_of_rat smartThreshold)"

text \<open>The loop over the disks; the result is \<open>(err, oldest, youngest)\<close>.\<close>

fun disksLoop ::
  "executer \<Rightarrow> (string \<Rightarrow> (string \<times> string) list) \<Rightarrow> string list \<Rightarrow> int \<Rightarrow> int
     \<Rightarrow> error option \<times> int \<times> int" where
  "disksLoop e findAll [] oldest youngest = (None, oldest, youngest)"
| "disksLoop e findAll (disk # disks) oldest youngest =
     (case e ''/sbin/smartctl'' [''-l'', ''selftest'', ''/dev/'' @ disk] of
        Inl err \<Rightarrow> (Some (ExecError err), oldest, youngest)
      | Inr status \<Rightarrow>
          let matches = findAll status
          in case rowsLoop 0 matches 0 [] oldest youngest of
               Inl (err, oldest', youngest') \<Rightarrow> (Some err, oldest', youngest')
             | Inr (fails, latestFail, oldest', youngest') \<Rightarrow>
                 if thresholdBreach fails (length matches)
                 then (Some (SmartError disk latestFail), oldest', youngest')
                 else disksLoop e findAll disks oldest' youngest')"

definition smartDisks :: "string list" where
  "smartDisks = [''sda'', ''sdb'', ''sdc'', ''sdd'', ''sde'', ''sdf'']"

definition MaxInt32 :: int where
  "MaxInt32 = 2147483647"

definition checkSmartStatus ::
  "executer \<Rightarrow> (string \<Rightarrow> (string \<times> string) list) \<Rightarrow> error option \<times> int \<times> int" where
  "checkSmartStatus e findAll = disksLoop e findAll smartDisks 0 MaxInt32"


section \<open>Notions used in the statements\<close>

text \<open>The lines that the evaluator emits for a list of disks and for one group.\<close>

definition diskLines :: "vdevDisk list \<Rightarrow> string list" where
  "diskLines ds = map vdevDisk_String (filter (\<lambda>d. \<not> vdevDisk_Healthy d) ds)"

definition vdevLines :: "vdev \<Rightarrow> string list" where
  "vdevLines v = (if \<not> vdev_Healthy v then [vdev_String v] else []) @ diskLines (vdev_disks v)"



text \<open>\<open>ownedDisks p\<close>: every disk of the pool reads, through its pointer \<open>vdev\<close>, the kind
  of the group that holds it.\<close>

definition ownedDisks :: "pool \<Rightarrow> bool" where
  "ownedDisks p =
     (\<forall>v\<in>set (pool_vdevs p). \<forall>d\<in>set (vdev_disks v). disk_vdev_typev d = vdev_typev v)"



text \<open>
  For the self-test analyzer: the call of the executer for one disk; the rows found in
  its output; the age of the first row, when it has one that \<open>Atoi\<close> accepts; the number
  of failing rows; whether the loop over the disks ends at a disk (the executer fails,
  an age is refused, or the threshold is reached); the disks that the loop works on;
  and the ages of their first rows.
\<close>

definition smartctl :: "executer \<Rightarrow> string \<Rightarrow> string + string" where
  "smartctl e disk = e ''/sbin/smartctl'' [''-l'', ''selftest'', ''/dev/'' @ disk]"

definition diskRows :: "executer \<Rightarrow> (string \<Rightarrow> (string \<times> string) list) \<Rightarrow> string \<Rightarrow> (string \<times> string) list" where
  "diskRows e findAll disk = (case smartctl e disk of Inl err \<Rightarrow> [] | Inr status \<Rightarrow> findAll status)"

definition firstAge :: "(string \<times> string) list \<Rightarrow> int list" where
  "firstAge rows =
     (case rows of
        [] \<Rightarrow> []
      | m # ms \<Rightarrow> (case Atoi (snd m) of Inl err \<Rightarrow> [] | Inr age \<Rightarrow> [age]))"

definition failCount :: "(string \<times> string) list \<Rightarrow> int" where
  "failCount rows = int (length (filter (\<lambda>m. fst m \<noteq> ''Completed without error'') rows))"

text \<open>\<open>lastFail rows\<close>: the description of the last failing row, which is what the loop
  over the rows leaves in \<open>latestFail\<close>.\<close>

definition lastFail :: "(string \<times> string) list \<Rightarrow> string" where
  "lastFail rows =
     (case rev (filter (\<lambda>m. fst m \<noteq> ''Completed without error'') rows) of
        [] \<Rightarrow> []
      | m # ms \<Rightarrow> fst m)"

definition diskStops :: "executer \<Rightarrow> (string \<Rightarrow> (string \<times> string) list) \<Rightarrow> string \<Rightarrow> bool" where
  "diskStops e findAll disk =
     (case smartctl e disk of
        Inl err \<Rightarrow> True
      | Inr status \<Rightarrow>
          list_ex (\<lambda>m. isl (Atoi (snd m))) (findAll status)
          \<or> thresholdBreach (failCount (findAll status)) (length (findAll status)))"

fun scannedDisks :: "executer \<Rightarrow> (string \<Rightarrow> (string \<times> string) list) \<Rightarrow> string list \<Rightarrow> string list" where
  "scannedDisks e findAll [] = []"
| "scannedDisks e findAll (disk # disks) =
     (if diskStops e findAll disk then [disk] else disk # scannedDisks e findAll disks)"

definition firstRowAges :: "executer \<Rightarrow> (string \<Rightarrow> (string \<times> string) list) \<Rightarrow> string list \<Rightarrow> int list" where
  "firstRowAges e findAll disks = concat (map (\<lambda>disk. firstAge (diskRows e findAll disk)) disks)"

definition agesOf :: "(error \<times> int \<times> int) + (int \<times> string \<times> int \<times> int) \<Rightarrow> int \<times> int" where
  "agesOf r = (case r of Inl (err, oldest, youngest) \<Rightarrow> (oldest, youngest)
                     | Inr (fails, latestFail, oldest, youngest) \<Rightarrow> (oldest, youngest))"

subsection \<open>Sample documents\<close>

definition LF :: string where
  "LF = [CHR 0x0A]"

definition TAB :: string where
  "TAB = [CHR 0x09]"

text \<open>A pool with one disk of its group offline.\<close>

definition zpoolOffline :: string where
  "zpoolOffline =
     ''  pool: primarySafe'' @ LF @
     '' state: ONLINE'' @ LF @
     ''  scan: scrub repaired 0 in 5h30m with 0 errors on Sun Jan  1 05:30:00 2017'' @ LF @
     ''config:'' @ LF @
     LF @
     TAB @ ''NAME                                      STATE     READ WRITE CKSUM'' @ LF @
     TAB @ ''primarySafe                               ONLINE       0     0     0'' @ LF @
     TAB @ ''  raidz2-0                                ONLINE       0     0     0'' @ LF @
     TAB @ ''    e43d41b6-adcc-11e5-b06a-d43d7ef79ff0  OFFLINE      0     0     0'' @ LF @
     TAB @ ''    e4b8a7cc-adcc-11e5-b06a-d43d7ef79ff0  ONLINE       0     0     0'' @ LF @
     LF @
     ''errors: No known data errors'' @ LF"

definition offlineDisk :: vdevDisk where
  "offlineDisk = \<lparr>disk_vdev_typev = vdevTypeRaidz,
     disk_name = ''e43d41b6-adcc-11e5-b06a-d43d7ef79ff0'', disk_state = ''OFFLINE'',
     disk_read = 0, disk_write = 0, disk_checksum = 0, disk_message = []\<rparr>"

definition onlineDisk :: vdevDisk where
  "onlineDisk = \<lparr>disk_vdev_typev = vdevTypeRaidz,
     disk_name = ''e4b8a7cc-adcc-11e5-b06a-d43d7ef79ff0'', disk_state = ''ONLINE'',
     disk_read = 0, disk_write = 0, disk_checksum = 0, disk_message = []\<rparr>"

definition raidzGroup :: "vdevDisk list \<Rightarrow> vdev" where
  "raidzGroup ds = \<lparr>vdev_name = ''raidz2-0'', vdev_state = ''ONLINE'', vdev_typev = vdevTypeRaidz,
     vdev_disks = ds, vdev_read = 0, vdev_write = 0, vdev_checksum = 0\<rparr>"

definition primarySafe :: "vdev list \<Rightarrow> pool" where
  "primarySafe vs = \<lparr>pool_name = ''primarySafe'', pool_state = ''ONLINE'', pool_status = [],
     pool_scanStatus = ''scrub'', pool_read = 0, pool_write = 0, pool_checksum = 0,
     pool_vdevs = vs, pool_errors = ''errors: No known data errors''\<rparr>"

text \<open>A pool with a healthy group and a spare that cannot be opened.\<close>

definition zpoolSpare :: string where
  "zpoolSpare =
     ''  pool: primarySafe'' @ LF @
     '' state: ONLINE'' @ LF @
     ''  scan: scrub repaired 0 in 5h30m with 0 errors on Sun Jan  1 05:30:00 2017'' @ LF @
     ''config:'' @ LF @
     LF @
     TAB @ ''NAME                                      STATE     READ WRITE CKSUM'' @ LF @
     TAB @ ''primarySafe                               ONLINE       0     0     0'' @ LF @
     TAB @ ''  raidz2-0                                ONLINE       0     0     0'' @ LF @
     TAB @ ''    e4b8a7cc-adcc-11e5-b06a-d43d7ef79ff0  ONLINE       0     0     0'' @ LF @
     TAB @ ''spares'' @ LF @
     TAB @ ''  f9aeb0c4-a208-4118-a5e3-0d01bfb36743    UNAVAIL'' @ LF @
     LF @
     ''errors: No known data errors'' @ LF"

definition spareDisk :: vdevDisk where
  "spareDisk = \<lparr>disk_vdev_typev = vdevTypeSpare,
     disk_name = ''f9aeb0c4-a208-4118-a5e3-0d01bfb36743'', disk_state = ''UNAVAIL'',
     disk_read = 0, disk_write = 0, disk_checksum = 0, disk_message = []\<rparr>"

definition sparesGroup :: vdev where
  "sparesGroup = \<lparr>vdev_name = ''spares'', vdev_state = [], vdev_typev = vdevTypeSpare,
     vdev_disks = [spareDisk], vdev_read = 0, vdev_write = 0, vdev_checksum = 0\<rparr>"


text \<open>A healthy pool whose last scrub ended with two errors.\<close>

definition zpoolScrubErrors :: string where
  "zpoolScrubErrors =
     ''  pool: primarySafe'' @ LF @
     '' state: ONLINE'' @ LF @
     ''  scan: scrub repaired 0 in 5h30m with 2 errors on Sun Jan  1 05:30:00 2017'' @ LF @
     ''config:'' @ LF @
     LF @
     TAB @ ''NAME                                      STATE     READ WRITE CKSUM'' @ LF @
     TAB @ ''primarySafe                               ONLINE       0     0     0'' @ LF @
     TAB @ ''  raidz2-0                                ONLINE       0     0     0'' @ LF @
     TAB @ ''    e4b8a7cc-adcc-11e5-b06a-d43d7ef79ff0  ONLINE       0     0     0'' @ LF @
     LF @
     ''errors: No known data errors'' @ LF"

text \<open>A structurally healthy pool record whose scan status reports a scrub with errors.\<close>

definition scrubbedPool :: pool where
  "scrubbedPool = (primarySafe [raidzGroup [onlineDisk]])
     \<lparr>pool_scanStatus := ''scrub repaired 0 in 5h30m with 2 errors on Sun Jan  1 05:30:00 2017''\<rparr>"


definition bootPool :: pool where
  "bootPool = \<lparr>pool_name = ''boot-pool'', pool_state = ''ONLINE'', pool_status = [],
     pool_scanStatus = ''none'', pool_read = 0, pool_write = 0, pool_checksum = 0,
     pool_vdevs = [vdev_zero], pool_errors = ''errors: No known data errors''\<rparr>"


text \<open>A pool whose error text has two lines.\<close>

definition zpoolTwoErrors :: string where
  "zpoolTwoErrors =
     ''  pool: primarySafe'' @ LF @
     '' state: ONLINE'' @ LF @
     ''  scan: none requested'' @ LF @
     ''config:'' @ LF @
     LF @
     TAB @ ''NAME                                      STATE     READ WRITE CKSUM'' @ LF @
     TAB @ ''primarySafe                               ONLINE       0     0     0'' @ LF @
     TAB @ ''  raidz2-0                                ONLINE       0     0     0'' @ LF @
     TAB @ ''    e4b8a7cc-adcc-11e5-b06a-d43d7ef79ff0  ONLINE       0     0     0'' @ LF @
     LF @
     ''errors: Permanent errors have been detected in the following files:'' @ LF @
     ''        /mnt/primarySafe/media/film.mkv'' @ LF"

text \<open>A document with an \<open>action:\<close> line after the device table.\<close>

definition zpoolActionLast :: string where
  "zpoolActionLast =
     ''  pool: primarySafe'' @ LF @
     '' state: ONLINE'' @ LF @
     ''  scan: none requested'' @ LF @
     ''config:'' @ LF @
     LF @
     TAB @ ''NAME                                      STATE     READ WRITE CKSUM'' @ LF @
     TAB @ ''primarySafe                               ONLINE       0     0     0'' @ LF @
     TAB @ ''  raidz2-0                                ONLINE       0     0     0'' @ LF @
     TAB @ ''    e4b8a7cc-adcc-11e5-b06a-d43d7ef79ff0  ONLINE       0     0     0'' @ LF @
     LF @
     ''action: No action is required.'' @ LF"


subsection \<open>Sample self-test logs\<close>

text \<open>An executer that answers for every disk, and a table of rows for its answers,
  without a failing row; the disk \<open>sdd\<close> has no row at all.\<close>

definition smartExec :: executer where
  "smartExec cmd args =
     (if cmd = ''/sbin/smartctl'' \<and> length args = 3 then Inr (''self-test log of '' @ args ! 2)
      else Inl ''unknown command'')"

definition healthyRows :: "string \<Rightarrow> (string \<times> string) list" where
  "healthyRows status =
     (if status = ''self-test log of /dev/sda''
        then [(''Completed without error'', ''20911''), (''Completed without error'', ''20887'')]
      else if status = ''self-test log of /dev/sdb'' then [(''Completed without error'', ''31000'')]
      else if status = ''self-test log of /dev/sdc''
        then [(''Completed without error'', ''1500''), (''Completed without error'', ''1476'')]
      else if status = ''self-test log of /dev/sde'' then [(''Completed without error'', ''45000'')]
      else if status = ''self-test log of /dev/sdf'' then [(''Completed without error'', ''30000'')]
      else [])"

text \<open>Two self-test logs as \<open>smartctl -l selftest\<close> prints them, the executer that returns
  the first for \<open>/dev/sda\<close> and the second for every other disk, and the rows of the
  pattern in the two texts: the description and the age of each numbered line.\<close>

definition smartLogClean :: string where
  "smartLogClean =
     ''Num  Test_Description    Status                  Remaining  LifeTime(hours)  LBA_of_first_error'' @ LF @
     ''# 1  Short offline       Completed without error       00%     20911         -'' @ LF"

definition smartLogFailing :: string where
  "smartLogFailing =
     ''Num  Test_Description    Status                  Remaining  LifeTime(hours)  LBA_of_first_error'' @ LF @
     ''# 1  Short offline       Completed: read failure       00%     31000         1065112'' @ LF @
     ''# 2  Short offline       Completed without error       00%     30976         -'' @ LF @
     ''# 3  Extended offline    Aborted by host               00%     30952         -'' @ LF"

definition failingExec :: executer where
  "failingExec cmd args =
     (if cmd = ''/sbin/smartctl'' \<and> args = [''-l'', ''selftest'', ''/dev/sda''] then Inr smartLogClean
      else Inr smartLogFailing)"

definition sampleRows :: "string \<Rightarrow> (string \<times> string) list" where
  "sampleRows status =
     (if status = smartLogClean then [(''Completed without error'', ''20911'')]
      else if status = smartLogFailing
        then [(''Completed: read failure'', ''31000''), (''Completed without error'', ''30976''),
              (''Aborted by host'', ''30952'')]
      else [])"


section \<open>The evaluator, as lists\<close>

lemma foldl_conj: "foldl (\<lambda>h x. h \<and> P x) b xs = (b \<and> (\<forall>x\<in>set xs. P x))"
  by (induction xs arbitrary: b) auto

lemma vdev_Healthy_iff:
  "vdev_Healthy v =
     ((vdev_typev v = vdevTypeSpare \<or>
       (vdev_state v = ''ONLINE'' \<and> vdev_read v = 0 \<and> vdev_write v = 0 \<and> vdev_checksum v = 0))
      \<and> (\<forall>d\<in>set (vdev_disks v). vdevDisk_Healthy d))"
  unfolding vdev_Healthy_def foldl_conj by (cases "vdev_typev v") simp_all

lemma pool_Health_iff:
  "pool_Health p =
     (pool_state p = ''ONLINE'' \<and> pool_read p = 0 \<and> pool_write p = 0 \<and> pool_checksum p = 0
      \<and> pool_errors p = ''errors: No known data errors''
      \<and> (\<forall>v\<in>set (pool_vdevs p). vdev_Healthy v))"
  unfolding pool_Health_def foldl_conj by simp

lemma checkDisks_eq: "checkDisks errs ds = errs @ diskLines ds"
  unfolding checkDisks_def diskLines_def
  by (induction ds arbitrary: errs) auto

lemma checkVdevs_eq: "checkVdevs errs vs = errs @ concat (map vdevLines vs)"
  unfolding checkVdevs_def
  by (induction vs arbitrary: errs) (auto simp: checkDisks_eq vdevLines_def)

lemma checkPool_eq: "checkPool errs p = errs @ checkPool [] p"
  by (simp add: checkPool_def checkVdevs_eq Let_def)

lemma checkPools_eq: "checkPools ps = concat (map (checkPool []) ps)"
proof -
  have "foldl checkPool errs ps = errs @ concat (map (checkPool []) ps)" for errs
  proof (induction ps arbitrary: errs)
    case Nil
    show ?case by simp
  next
    case (Cons p ps)
    show ?case
      by (simp add: Cons.IH [of "checkPool errs p"]) (subst checkPool_eq, simp)
  qed
  from this [of "[]"] show ?thesis by (simp add: checkPools_def)
qed

lemma concat_map_nil: "\<forall>x\<in>set xs. f x = [] \<Longrightarrow> concat (map f xs) = []"
  by (induction xs) auto

lemma diskLines_healthy: "\<forall>d\<in>set ds. vdevDisk_Healthy d \<Longrightarrow> diskLines ds = []"
  by (simp add: diskLines_def)

lemma vdevLines_healthy: "vdev_Healthy v \<Longrightarrow> vdevLines v = []"
  by (simp add: vdevLines_def vdev_Healthy_iff diskLines_healthy)

lemma checkPool_healthy: "pool_Health p \<Longrightarrow> \<not> scrubFault p \<Longrightarrow> checkPool [] p = []"
  by (simp add: checkPool_def)

lemma parse_zpoolOffline:
  "parsePools zpoolOffline = Inr [primarySafe [raidzGroup [offlineDisk, onlineDisk]]]"
  by code_simp

lemma parse_zpoolSpare:
  "parsePools zpoolSpare = Inr [primarySafe [raidzGroup [onlineDisk], sparesGroup]]"
  by code_simp


section \<open>The parse loop\<close>






text \<open>
  The parser keeps every disk with the group it was read for: \<open>disk.vdev\<close> points to the
  last group of the last pool, and the disk is appended to that group. So in the pools
  that \<open>parsePools\<close> returns, the kind that a disk reads through its pointer is the kind
  of the group that holds it.
\<close>

lemma set_set_last: "xs \<noteq> [] \<Longrightarrow> set (set_last xs x) \<subseteq> insert x (set xs)"
  by (auto simp: set_last_def dest: in_set_butlastD)

lemma ownedDisks_set_last:
  assumes "\<forall>p\<in>set pools. ownedDisks p" and "pools \<noteq> []"
    and "ownedDisks (last pools) \<Longrightarrow> ownedDisks q"
  shows "\<forall>p\<in>set (set_last pools q). ownedDisks p"
proof -
  have "ownedDisks (last pools)" using assms(1,2) by simp
  then have "ownedDisks q" by (rule assms(3))
  then show ?thesis using assms(1) set_set_last [OF assms(2), of q] by auto
qed

lemma ownedDisks_fields:
  "ownedDisks p \<Longrightarrow> ownedDisks (p\<lparr>pool_status := a\<rparr>)"
  "ownedDisks p \<Longrightarrow> ownedDisks (p\<lparr>pool_state := a\<rparr>)"
  "ownedDisks p \<Longrightarrow> ownedDisks (p\<lparr>pool_scanStatus := a\<rparr>)"
  "ownedDisks p \<Longrightarrow> ownedDisks (p\<lparr>pool_errors := a\<rparr>)"
  "ownedDisks p \<Longrightarrow> ownedDisks (p\<lparr>pool_read := r, pool_write := w, pool_checksum := c\<rparr>)"
  by (simp_all add: ownedDisks_def)

lemma ownedDisks_add_vdev:
  "ownedDisks p \<Longrightarrow> vdev_disks v = [] \<Longrightarrow> ownedDisks (p\<lparr>pool_vdevs := pool_vdevs p @ [v]\<rparr>)"
  by (auto simp: ownedDisks_def)

lemma ownedDisks_add_disk:
  assumes "ownedDisks p" and "pool_vdevs p \<noteq> []" and "disk_vdev_typev d = vdev_typev (last (pool_vdevs p))"
  shows "ownedDisks (p\<lparr>pool_vdevs := set_last (pool_vdevs p)
           ((last (pool_vdevs p))\<lparr>vdev_disks := vdev_disks (last (pool_vdevs p)) @ [d]\<rparr>)\<rparr>)"
proof -
  let ?v = "last (pool_vdevs p)"
  let ?v' = "?v\<lparr>vdev_disks := vdev_disks ?v @ [d]\<rparr>"
  have v: "?v \<in> set (pool_vdevs p)" using assms(2) by simp
  have new: "\<forall>c\<in>set (vdev_disks ?v'). disk_vdev_typev c = vdev_typev ?v'"
    using assms(1,3) v by (auto simp: ownedDisks_def)
  have "\<forall>c\<in>set (vdev_disks w). disk_vdev_typev c = vdev_typev w"
    if "w \<in> set (set_last (pool_vdevs p) ?v')" for w
  proof -
    from that set_set_last [OF assms(2), of ?v']
    have "w = ?v' \<or> w \<in> set (pool_vdevs p)" by blast
    then show ?thesis
    proof
      assume "w = ?v'" with new show ?thesis by blast
    next
      assume "w \<in> set (pool_vdevs p)"
      with assms(1) show ?thesis unfolding ownedDisks_def by blast
    qed
  qed
  then show ?thesis unfolding ownedDisks_def by simp
qed

lemma ownedDisks_append_vdev:
  assumes "\<forall>p\<in>set pools. ownedDisks p" and "pools \<noteq> []" and "vdev_disks v = []"
  shows "\<forall>p\<in>set (set_last pools ((last pools)\<lparr>pool_vdevs := pool_vdevs (last pools) @ [v]\<rparr>)).
           ownedDisks p"
  using assms(3) by (intro ownedDisks_set_last assms(1,2) ownedDisks_add_vdev)

lemma ownedDisks_append_disk:
  assumes "\<forall>p\<in>set pools. ownedDisks p" and "pools \<noteq> []" and "pool_vdevs (last pools) \<noteq> []"
    and "disk_vdev_typev d = vdev_typev (last (pool_vdevs (last pools)))"
  shows "\<forall>p\<in>set (set_last pools ((last pools)\<lparr>pool_vdevs :=
             set_last (pool_vdevs (last pools))
               ((last (pool_vdevs (last pools)))\<lparr>vdev_disks :=
                   vdev_disks (last (pool_vdevs (last pools))) @ [d]\<rparr>)\<rparr>)).
           ownedDisks p"
  using assms(3,4) by (intro ownedDisks_set_last assms(1,2) ownedDisks_add_disk)

lemma parsePoolState_ownedDisks:
  assumes "parsePoolState pools sc line st = Inr (np, pools', sc', st')"
    and "\<forall>p\<in>set pools. ownedDisks p"
  shows "(\<forall>p\<in>set pools'. ownedDisks p) \<and> (\<forall>q. np = Some q \<longrightarrow> ownedDisks q)"
  using assms
proof (induction pools sc line st rule: parsePoolState.induct)
  case (1 pools scanner line)
  from "1.prems"(1) obtain name where "np = Some (pool_zero\<lparr>pool_name := name\<rparr>)" "pools' = pools"
    by (auto split: sum.splits)
  with "1.prems"(2) show ?case by (simp add: ownedDisks_def pool_zero_def)
next
  case (2 pools scanner line)
  show ?case
  proof (cases "HasPrefix (TrimSpace line) ''scan: ''")
    case True
    with "2.prems" "2.IH" show ?thesis by (simp add: Let_def)
  next
    case False
    note noscan = False
    have "(np = None \<and> pools' = pools)
        \<or> (\<exists>a. np = None \<and> pools \<noteq> [] \<and> pools' = set_last pools ((last pools)\<lparr>pool_status := a\<rparr>))
        \<or> (\<exists>a. np = None \<and> pools \<noteq> [] \<and> pools' = set_last pools ((last pools)\<lparr>pool_state := a\<rparr>))"
    proof (cases "HasPrefix (TrimSpace line) ''action: ''")
      case True
      with noscan "2.prems"(1) show ?thesis by (simp add: Let_def)
    next
      case noaction: False
      show ?thesis
      proof (cases "pools = []")
        case True
        with noscan noaction "2.prems"(1) show ?thesis by (simp add: Let_def)
      next
        case ne: False
        show ?thesis
        proof (cases "HasPrefix (TrimSpace line) ''status: ''")
          case True
          with noscan noaction ne "2.prems"(1) show ?thesis
            by (simp add: Let_def) blast
        next
          case nostatus: False
          show ?thesis
          proof (cases "HasPrefix (TrimSpace line) ''state: ''")
            case True
            with noscan noaction ne nostatus "2.prems"(1) show ?thesis
              by (cases "Sscanf_state (TrimSpace line)") (simp_all add: Let_def, blast)
          next
            case False
            with noscan noaction ne nostatus "2.prems"(1) show ?thesis
              by (simp add: Let_def) blast
          qed
        qed
      qed
    qed
    then consider "np = None" "pools' = pools"
      | a where "np = None" "pools \<noteq> []" "pools' = set_last pools ((last pools)\<lparr>pool_status := a\<rparr>)"
      | a where "np = None" "pools \<noteq> []" "pools' = set_last pools ((last pools)\<lparr>pool_state := a\<rparr>)"
      by blast
    then show ?thesis
    proof cases
      case 1 with "2.prems"(2) show ?thesis by simp
    next
      case 2 with "2.prems"(2) show ?thesis
        using ownedDisks_set_last [OF "2.prems"(2), of "(last pools)\<lparr>pool_status := a\<rparr>"]
        by (simp add: ownedDisks_fields)
    next
      case 3 with "2.prems"(2) show ?thesis
        using ownedDisks_set_last [OF "2.prems"(2), of "(last pools)\<lparr>pool_state := a\<rparr>"]
        by (simp add: ownedDisks_fields)
    qed
  qed
next
  case (3 pools scanner line)
  from "3.prems"(1) obtain a where "np = None" "pools \<noteq> []"
    "pools' = set_last pools ((last pools)\<lparr>pool_scanStatus := a\<rparr>)"
    by (auto split: if_splits sum.splits)
  then show ?case
    using ownedDisks_set_last [OF "3.prems"(2), of "(last pools)\<lparr>pool_scanStatus := a\<rparr>"]
    by (simp add: ownedDisks_fields)
next
  case (4 pools scanner line)
  from "4.prems"(1) obtain r w c where "np = None" "pools \<noteq> []"
    "pools' = set_last pools ((last pools)\<lparr>pool_read := r, pool_write := w, pool_checksum := c\<rparr>)"
    by (auto split: if_splits sum.splits prod.splits)
  then show ?case
    using ownedDisks_set_last [OF "4.prems"(2),
            of "(last pools)\<lparr>pool_read := r, pool_write := w, pool_checksum := c\<rparr>"]
    by (simp add: ownedDisks_fields)
next
  case (5 pools scanner line)
  show ?case
  proof (cases "pools = []")
    case True
    with "5.prems"(1) show ?thesis by simp
  next
    case False
    note app = ownedDisks_append_vdev [OF "5.prems"(2) False]
    from False "5.prems"(1) show ?thesis
      by (simp add: Let_def vdev_zero_def split: if_splits sum.splits prod.splits)
         (auto dest!: app [rule_format, rotated])
  qed
next
  case (6 pools scanner line)
  show ?case
  proof (cases "diskRe_MatchString line")
    case False
    with "6.prems" "6.IH" show ?thesis
      by (auto split: if_splits)
  next
    case True
    show ?thesis
    proof (cases "pools = [] \<or> pool_vdevs (last pools) = []")
      case True
      with \<open>diskRe_MatchString line\<close> "6.prems"(1) show ?thesis
        by (simp split: if_splits)
    next
      case False
      then have ne: "pools \<noteq> []" "pool_vdevs (last pools) \<noteq> []" by simp_all
      note app = ownedDisks_append_disk [OF "6.prems"(2) ne]
      from True ne "6.prems"(1) show ?thesis
        by (simp add: Let_def vdevDisk_zero_def
                 split: sum.splits prod.splits vdevType.splits option.splits)
           (auto dest!: app [rule_format, rotated])
    qed
  qed
next
  case (7 pools scanner line)
  have "(np = None \<and> pools' = pools)
      \<or> (\<exists>a. np = None \<and> pools \<noteq> [] \<and> pools' = set_last pools ((last pools)\<lparr>pool_errors := a\<rparr>))"
  proof (cases "length (TrimSpace line) = 0 \<or> pools = []")
    case True
    with "7.prems"(1) show ?thesis by (simp split: if_splits)
  next
    case False
    with "7.prems"(1) show ?thesis
      by (cases "pool_errors (last pools) = []") (simp, blast)+
  qed
  then consider "np = None" "pools' = pools"
    | a where "np = None" "pools \<noteq> []" "pools' = set_last pools ((last pools)\<lparr>pool_errors := a\<rparr>)"
    by blast
  then show ?case
  proof cases
    case 1 with "7.prems"(2) show ?thesis by simp
  next
    case 2 then show ?thesis
      using ownedDisks_set_last [OF "7.prems"(2), of "(last pools)\<lparr>pool_errors := a\<rparr>"]
      by (simp add: ownedDisks_fields)
  qed
qed

lemma parseLoop_ownedDisks:
  "parseLoop pools sc st = Inr ps \<Longrightarrow> \<forall>p\<in>set pools. ownedDisks p \<Longrightarrow> \<forall>p\<in>set ps. ownedDisks p"
proof (induction pools sc st rule: parseLoop.induct)
  case (1 pools st)
  then show ?case by simp
next
  case (2 pools line scanner st)
  from "2.prems"(1) obtain np pools' sc' st' where
    step: "parsePoolState pools scanner line st = Inr (np, pools', sc', st')"
    by (cases "parsePoolState pools scanner line st") auto
  let ?next = "case np of None \<Rightarrow> pools' | Some q \<Rightarrow> pools' @ [q]"
  from parsePoolState_ownedDisks [OF step "2.prems"(2)]
  have inv: "\<forall>p\<in>set ?next. ownedDisks p"
    by (cases np) auto
  from "2.prems"(1) step have run: "parseLoop ?next sc' st' = Inr ps"
    by simp
  from "2.IH" [OF step refl refl refl run inv] show ?case .
qed

lemma parsePools_ownedDisks:
  assumes "parsePools zpoolStatus = Inr pools" and "p \<in> set pools" and "v \<in> set (pool_vdevs p)"
    and "d \<in> set (vdev_disks v)"
  shows "disk_vdev_typev d = vdev_typev v"
proof -
  have "\<forall>p\<in>set pools. ownedDisks p"
    using assms(1) unfolding parsePools_def by (rule parseLoop_ownedDisks) simp
  with assms(2-4) show ?thesis unfolding ownedDisks_def by blast
qed


section \<open>Health of spare groups\<close>

text \<open>
  The group \<open>spares\<close> of the sample document is of kind \<open>vdevTypeSpare\<close>, its one disk is
  \<open>UNAVAIL\<close>, and \<open>vdev.Healthy\<close> is false for it: the loop over the disks runs for
  every kind of group.
\<close>

theorem spare_group_unhealthy_example:
  "parsePools zpoolSpare = Inr [primarySafe [raidzGroup [onlineDisk], sparesGroup]]
   \<and> vdev_typev sparesGroup = vdevTypeSpare
   \<and> \<not> vdev_Healthy sparesGroup"
  using parse_zpoolSpare
  by (simp add: vdev_Healthy_def sparesGroup_def spareDisk_def vdevDisk_Healthy_def)

text \<open>
  Claim C1, as the code has it: in the pools that \<open>parsePools\<close> returns, for a group of
  kind \<open>vdevTypeSpare\<close> the predicate \<open>Healthy\<close> leaves out the group's own state and
  counters, and is true exactly when every disk of the group has the state \<open>AVAIL\<close>;
  and every disk of such a group with another state has its summary line in the
  diagnostics of the evaluator.
\<close>

theorem spare_group_health:
  assumes parsed: "parsePools zStatus = Inr pools"
    and p: "p \<in> set pools" and v: "v \<in> set (pool_vdevs p)"
    and spare: "vdev_typev v = vdevTypeSpare"
  shows "(vdev_Healthy v \<longleftrightarrow> (\<forall>d\<in>set (vdev_disks v). disk_state d = ''AVAIL''))
       \<and> (\<forall>d\<in>set (vdev_disks v). disk_state d \<noteq> ''AVAIL'' \<longrightarrow>
             vdevDisk_String d \<in> set (checkPools pools))"
proof -
  have dh: "vdevDisk_Healthy d \<longleftrightarrow> disk_state d = ''AVAIL''" if "d \<in> set (vdev_disks v)" for d
    using parsePools_ownedDisks [OF parsed p v that] spare
    by (simp add: vdevDisk_Healthy_def)
  show ?thesis
  proof (intro conjI ballI impI)
    show "vdev_Healthy v \<longleftrightarrow> (\<forall>d\<in>set (vdev_disks v). disk_state d = ''AVAIL'')"
      using spare dh by (simp add: vdev_Healthy_iff)
  next
    fix d assume d: "d \<in> set (vdev_disks v)" and "disk_state d \<noteq> ''AVAIL''"
    then have bad: "\<not> vdevDisk_Healthy d" using dh by simp
    have "\<not> vdev_Healthy v"
      using d bad by (auto simp: vdev_Healthy_iff)
    then have pb: "\<not> pool_Health p"
      using v by (auto simp: pool_Health_iff)
    have "vdevDisk_String d \<in> set (diskLines (vdev_disks v))"
      using d bad by (auto simp: diskLines_def)
    then have "vdevDisk_String d \<in> set (vdevLines v)"
      by (simp add: vdevLines_def)
    then have "vdevDisk_String d \<in> set (concat (map vdevLines (pool_vdevs p)))"
      using v by auto
    then have "vdevDisk_String d \<in> set (checkPool [] p)"
      using pb by (simp add: checkPool_def checkVdevs_eq Let_def)
    then show "vdevDisk_String d \<in> set (checkPools pools)"
      using p by (auto simp: checkPools_eq)
  qed
qed

theorem spare_group_health_witness:
  "\<not> vdev_Healthy sparesGroup
   \<and> ''disk f9aeb0c4-a208-4118-a5e3-0d01bfb36743 - UNAVAIL: ''
       \<in> set (checkPools [primarySafe [raidzGroup [onlineDisk], sparesGroup]])"
proof -
  let ?p = "primarySafe [raidzGroup [onlineDisk], sparesGroup]"
  have h1: "?p \<in> set [?p]" by simp
  have h2: "sparesGroup \<in> set (pool_vdevs ?p)" by (simp add: primarySafe_def)
  have h3: "vdev_typev sparesGroup = vdevTypeSpare" by (simp add: sparesGroup_def)
  have ds: "vdev_disks sparesGroup = [spareDisk]" by (simp add: sparesGroup_def)
  have st: "disk_state spareDisk = ''UNAVAIL''" by (simp add: spareDisk_def)
  have str: "vdevDisk_String spareDisk = ''disk f9aeb0c4-a208-4118-a5e3-0d01bfb36743 - UNAVAIL: ''"
    by (simp add: vdevDisk_String_def spareDisk_def)
  from spare_group_health [OF parse_zpoolSpare h1 h2 h3] show ?thesis
    by (simp add: ds st str)
qed


section \<open>The scrub test\<close>

text \<open>
  The loop of \<open>checkPoolStatus\<close>, given a pool record whose field \<open>scanStatus\<close> contains
  \<open>scrub repaired\<close> and does not contain \<open>with 0 errors\<close>, returns an error, whatever the
  health predicates say: the diagnostics hold the three strings appended for this pool
  (the text of the scrub message, the name of the pool, its scan status), and the error
  is these diagnostics joined by line feeds.
\<close>

lemma scrub_fault_of_record:
  assumes "p \<in> set pools"
    and "Contains (pool_scanStatus p) ''scrub repaired''"
    and "\<not> Contains (pool_scanStatus p) ''with 0 errors''"
  shows "\<exists>pre post. checkPools pools =
            pre @ [''scrub of %s encountered errors: %s'', pool_name p, pool_scanStatus p] @ post
          \<and> healthVerdict pools = Some (HealthFault (Join (checkPools pools) [CHR 0x0A]))"
proof -
  from assms(1) obtain ps1 ps2 where split: "pools = ps1 @ p # ps2"
    by (auto simp: in_set_conv_decomp)
  have sf: "scrubFault p"
    using assms(2,3) by (simp add: scrubFault_def)
  obtain pl where cp: "checkPool [] p =
      pl @ [''scrub of %s encountered errors: %s'', pool_name p, pool_scanStatus p]"
    using sf by (simp add: checkPool_def Let_def)
  have eq: "checkPools pools = (concat (map (checkPool []) ps1) @ pl)
      @ [''scrub of %s encountered errors: %s'', pool_name p, pool_scanStatus p]
      @ concat (map (checkPool []) ps2)"
    by (simp add: checkPools_eq split cp)
  then have "healthVerdict pools = Some (HealthFault (Join (checkPools pools) [CHR 0x0A]))"
    by (simp add: healthVerdict_def Let_def)
  with eq show ?thesis by blast
qed


lemma scrub_fault_of_record_example:
  "pool_Health scrubbedPool
   \<and> healthVerdict [scrubbedPool] =
       Some (HealthFault (''scrub of %s encountered errors: %s'' @ LF @ ''primarySafe'' @ LF
         @ ''scrub repaired 0 in 5h30m with 2 errors on Sun Jan  1 05:30:00 2017''))"
proof -
  have h1: "scrubbedPool \<in> set [scrubbedPool]" by simp
  have h2: "Contains (pool_scanStatus scrubbedPool) ''scrub repaired''" by code_simp
  have h3: "\<not> Contains (pool_scanStatus scrubbedPool) ''with 0 errors''" by code_simp
  have healthy: "pool_Health scrubbedPool" by code_simp
  have errs: "checkPools [scrubbedPool] =
      [''scrub of %s encountered errors: %s'', ''primarySafe'',
       ''scrub repaired 0 in 5h30m with 2 errors on Sun Jan  1 05:30:00 2017'']"
    by code_simp
  from scrub_fault_of_record [OF h1 h2 h3]
  have "healthVerdict [scrubbedPool] =
      Some (HealthFault (Join (checkPools [scrubbedPool]) [CHR 0x0A]))"
    by blast
  with healthy show ?thesis by (simp add: errs LF_def)
qed

text \<open>
  Claim C2 says that a pool whose scan status reports a scrub that did not end
  \<open>with 0 errors\<close> is reported as a fault. The state Scan reads the scan status with
  \<open>fmt.Sscanf(line, " scan: %s", &p.scanStatus)\<close>, and \<open>%s\<close> stops at the first space: the
  field holds the first word of the line, here \<open>scrub\<close>, which never contains
  \<open>scrub repaired\<close>. The sample document, whose scrub ended with 2 errors, is found
  healthy.
\<close>

theorem scrub_errors_not_reported:
  "parsePools zpoolScrubErrors = Inr [primarySafe [raidzGroup [onlineDisk]]]
   \<and> pool_scanStatus (primarySafe [raidzGroup [onlineDisk]]) = ''scrub''
   \<and> checkPoolStatus (\<lambda>cmd args. Inr zpoolScrubErrors) = None"
  by code_simp


section \<open>One offline disk\<close>

text \<open>
  Claim C8: the document parses; one pool is healthy but for one group, that group is a
  mirror or raidz group healthy but for one disk, and that disk is \<open>OFFLINE\<close>; every
  other pool of the document is healthy and has no scrub fault. Then the health check
  returns an error whose text is the summary of the pool, of the group and of the
  disk, in this order, on three lines, and nothing else; and the line of the disk is
  the one with the three counters.
\<close>

theorem single_offline_disk:
  assumes exec: "e ''/sbin/zpool'' [''status''] = Inr zStatus"
    and parsed: "parsePools zStatus = Inr (ps1 @ p # ps2)"
    and others: "\<forall>q\<in>set (ps1 @ ps2). pool_Health q \<and> \<not> scrubFault q"
    and pool_ok: "pool_state p = ''ONLINE'' \<and> pool_read p = 0 \<and> pool_write p = 0
        \<and> pool_checksum p = 0 \<and> pool_errors p = ''errors: No known data errors''
        \<and> \<not> scrubFault p"
    and vdevs: "pool_vdevs p = vs1 @ v # vs2"
    and other_vdevs: "\<forall>u\<in>set (vs1 @ vs2). vdev_Healthy u"
    and group_ok: "vdev_typev v = vdevTypeRaidz \<and> vdev_state v = ''ONLINE'' \<and> vdev_read v = 0
        \<and> vdev_write v = 0 \<and> vdev_checksum v = 0"
    and disks: "vdev_disks v = ds1 @ d # ds2"
    and other_disks: "\<forall>c\<in>set (ds1 @ ds2). vdevDisk_Healthy c"
    and offline: "disk_state d = ''OFFLINE''"
  shows "checkPoolStatus e =
           Some (HealthFault (pool_String p @ [CHR 0x0A] @ vdev_String v @ [CHR 0x0A]
                              @ vdevDisk_String d))
       \<and> vdevDisk_String d =
           ''disk '' @ disk_name d @ '' - OFFLINE ('' @ fmt_d (disk_read d) @ ''|''
           @ fmt_d (disk_write d) @ ''|'' @ fmt_d (disk_checksum d) @ ''): '' @ disk_message d"
proof
  have d_bad: "\<not> vdevDisk_Healthy d"
    using offline by (simp add: vdevDisk_Healthy_def split: vdevType.splits)
  have v_bad: "\<not> vdev_Healthy v"
    using d_bad disks by (simp add: vdev_Healthy_iff)
  have p_bad: "\<not> pool_Health p"
    using v_bad vdevs by (simp add: pool_Health_iff)
  have dl: "diskLines (vdev_disks v) = [vdevDisk_String d]"
    using other_disks d_bad by (simp add: disks diskLines_def)
  have vl: "vdevLines v = [vdev_String v, vdevDisk_String d]"
    using v_bad dl by (simp add: vdevLines_def)
  have "concat (map vdevLines (pool_vdevs p)) = vdevLines v"
    using other_vdevs by (simp add: vdevs vdevLines_healthy concat_map_nil)
  then have cp: "checkPool [] p = [pool_String p, vdev_String v, vdevDisk_String d]"
    using p_bad pool_ok vl by (simp add: checkPool_def checkVdevs_eq)
  have "checkPools (ps1 @ p # ps2) = checkPool [] p"
    using others by (simp add: checkPools_eq checkPool_healthy concat_map_nil)
  then show "checkPoolStatus e =
           Some (HealthFault (pool_String p @ [CHR 0x0A] @ vdev_String v @ [CHR 0x0A]
                              @ vdevDisk_String d))"
    by (simp add: checkPoolStatus_def exec parsed healthVerdict_def cp)
next
  have "disk_vdev_typev d = vdev_typev v"
    using parsePools_ownedDisks [OF parsed, of p v d] vdevs disks by simp
  then show "vdevDisk_String d =
           ''disk '' @ disk_name d @ '' - OFFLINE ('' @ fmt_d (disk_read d) @ ''|''
           @ fmt_d (disk_write d) @ ''|'' @ fmt_d (disk_checksum d) @ ''): '' @ disk_message d"
    using group_ok offline by (simp add: vdevDisk_String_def)
qed

theorem single_offline_disk_witness:
  "checkPoolStatus (\<lambda>cmd args. Inr zpoolOffline) =
     Some (HealthFault
       (''pool primarySafe - ONLINE (0|0|0): errors: No known data errors'' @ LF
        @ ''vdev raidz2-0 - ONLINE (0|0|0)'' @ LF
        @ ''disk e43d41b6-adcc-11e5-b06a-d43d7ef79ff0 - OFFLINE (0|0|0): ''))"
proof -
  let ?v = "raidzGroup [offlineDisk, onlineDisk]"
  let ?p = "primarySafe [?v]"
  have parsed: "parsePools zpoolOffline = Inr ([] @ ?p # [])"
    by (simp add: parse_zpoolOffline)
  have others: "\<forall>q\<in>set ([] @ []). pool_Health q \<and> \<not> scrubFault q"
    by simp
  have pool_ok: "pool_state ?p = ''ONLINE'' \<and> pool_read ?p = 0 \<and> pool_write ?p = 0
      \<and> pool_checksum ?p = 0 \<and> pool_errors ?p = ''errors: No known data errors''
      \<and> \<not> scrubFault ?p"
    by (simp add: primarySafe_def scrubFault_def HasPrefix_def)
  have vdevs: "pool_vdevs ?p = [] @ ?v # []"
    by (simp add: primarySafe_def)
  have other_vdevs: "\<forall>u\<in>set ([] @ []). vdev_Healthy u"
    by simp
  have group_ok: "vdev_typev ?v = vdevTypeRaidz \<and> vdev_state ?v = ''ONLINE'' \<and> vdev_read ?v = 0
      \<and> vdev_write ?v = 0 \<and> vdev_checksum ?v = 0"
    by (simp add: raidzGroup_def)
  have disks: "vdev_disks ?v = [] @ offlineDisk # [onlineDisk]"
    by (simp add: raidzGroup_def)
  have other_disks: "\<forall>c\<in>set ([] @ [onlineDisk]). vdevDisk_Healthy c"
    by (simp add: vdevDisk_Healthy_def onlineDisk_def)
  have offline: "disk_state offlineDisk = ''OFFLINE''"
    by (simp add: offlineDisk_def)
  have strs: "pool_String ?p = ''pool primarySafe - ONLINE (0|0|0): errors: No known data errors''"
    "vdev_String ?v = ''vdev raidz2-0 - ONLINE (0|0|0)''"
    "vdevDisk_String offlineDisk = ''disk e43d41b6-adcc-11e5-b06a-d43d7ef79ff0 - OFFLINE (0|0|0): ''"
    by code_simp+
  from single_offline_disk [of "\<lambda>cmd args. Inr zpoolOffline", OF refl parsed others pool_ok vdevs
      other_vdevs group_ok disks other_disks offline]
  show ?thesis
    by (simp add: strs LF_def)
qed


section \<open>Name and state of the table row\<close>




section \<open>Lines that fail their layout\<close>





section \<open>Lines that start with action:\<close>

text \<open>
  Only the state Status looks for \<open>action: \<close>. In the state Start such a line is a
  parse error, and in the state Errors it becomes the error text of the pool, which
  makes the pool unhealthy.
\<close>

theorem action_line_not_inert_example:
  "parsePoolState [] [] ''action: No action is required.'' zpoolParseStart
     = Inl (ParseError ErrExpectedSpace ''action: No action is required.'')
   \<and> checkPoolStatus (\<lambda>cmd args. Inr zpoolActionLast)
     = Some (HealthFault ''pool primarySafe - ONLINE (0|0|0): action: No action is required.'')"
  by code_simp

lemma HasPrefix_action_not_scan:
  "HasPrefix t ''action: '' \<Longrightarrow> \<not> HasPrefix t ''scan: ''"
proof
  assume a: "HasPrefix t ''action: ''" and b: "HasPrefix t ''scan: ''"
  from a obtain cs where "t = CHR ''a'' # cs"
    by (cases t) (auto simp: HasPrefix_def)
  with b show False
    by (simp add: HasPrefix_def)
qed

text \<open>
  Claim C9, as the code has it: in the state Status a line whose trimmed text starts
  with \<open>action: \<close> returns no pool and no error, and leaves the pools, the scanner and
  the state as they are; the loop of \<open>parsePools\<close> goes on as if the line were not there.
\<close>

theorem action_line_in_status:
  assumes "HasPrefix (TrimSpace line) ''action: ''"
  shows "parsePoolState pools scanner line zpoolParseStatus
           = Inr (None, pools, scanner, zpoolParseStatus)
       \<and> parseLoop pools (line # scanner) zpoolParseStatus
           = parseLoop pools scanner zpoolParseStatus"
proof -
  have step: "parsePoolState pools scanner line zpoolParseStatus
           = Inr (None, pools, scanner, zpoolParseStatus)"
    using assms HasPrefix_action_not_scan [OF assms] by (simp add: Let_def)
  then show ?thesis by simp
qed

theorem action_line_in_status_witness:
  "parsePoolState [bootPool] [] ''action: Replace the device using zpool replace.'' zpoolParseStatus
     = Inr (None, [bootPool], [], zpoolParseStatus)"
proof -
  have h: "HasPrefix (TrimSpace ''action: Replace the device using zpool replace.'') ''action: ''"
    by code_simp
  from action_line_in_status [OF h, of "[bootPool]" "[]"] show ?thesis
    by simp
qed


section \<open>The error text of a pool\<close>

text \<open>
  Claim C4 says that every line of the state Errors after the first is appended to the
  error text. The assignment \<open>p.errors = "\n" + line\<close> replaces the text instead: of the
  two error lines of the sample document only the second is left, after a line feed.
\<close>

theorem second_error_line_replaces_first:
  "parsePools zpoolTwoErrors =
     Inr [(primarySafe [raidzGroup [onlineDisk]])
            \<lparr>pool_scanStatus := ''none'',
             pool_errors := LF @ ''        /mnt/primarySafe/media/film.mkv''\<rparr>]"
  by code_simp


section \<open>The self-test analyzer\<close>

lemma rowsLoop_later:
  "0 < j \<Longrightarrow> agesOf (rowsLoop j rows fails lf oldest youngest) = (oldest, youngest)"
proof (induction rows arbitrary: j fails lf)
  case Nil
  show ?case by (simp add: agesOf_def)
next
  case (Cons m ms)
  show ?case
  proof (cases "Atoi (snd m)")
    case (Inl err)
    then show ?thesis by (simp add: agesOf_def Let_def)
  next
    case (Inr age)
    with Cons.prems Cons.IH [of "j + 1"] show ?thesis
      by (simp add: Let_def)
  qed
qed

lemma rowsLoop_first:
  "agesOf (rowsLoop 0 rows fails lf oldest youngest) =
     (fold max (firstAge rows) oldest, fold min (firstAge rows) youngest)"
proof (cases rows)
  case Nil
  then show ?thesis by (simp add: agesOf_def firstAge_def)
next
  case (Cons m ms)
  show ?thesis
  proof (cases "Atoi (snd m)")
    case (Inl err)
    then show ?thesis by (simp add: Cons agesOf_def firstAge_def Let_def)
  next
    case (Inr age)
    then show ?thesis
      using rowsLoop_later [of 1 ms]
      by (simp add: Cons firstAge_def Let_def max_def min_def)
  qed
qed

lemma rowsLoop_isl:
  "isl (rowsLoop j rows fails lf oldest youngest) = list_ex (\<lambda>m. isl (Atoi (snd m))) rows"
proof (induction rows arbitrary: j fails lf oldest youngest)
  case Nil
  show ?case by simp
next
  case (Cons m ms)
  show ?case
  proof (cases "Atoi (snd m)")
    case (Inl err)
    then show ?thesis by (simp add: Let_def)
  next
    case (Inr age)
    then show ?thesis by (simp add: Let_def Cons.IH)
  qed
qed

lemma rowsLoop_fails:
  "rowsLoop j rows fails lf oldest youngest = Inr (fails', lf', oldest', youngest') \<Longrightarrow>
   fails' = fails + failCount rows"
proof (induction rows arbitrary: j fails lf oldest youngest)
  case Nil
  then show ?case by (simp add: failCount_def)
next
  case (Cons m ms)
  show ?case
  proof (cases "Atoi (snd m)")
    case (Inl err)
    with Cons.prems show ?thesis by (simp add: Let_def)
  next
    case (Inr age)
    let ?f = "if fst m \<noteq> ''Completed without error'' then fails + 1 else fails"
    from Cons.prems Inr obtain lf2 o2 y2 where
      "rowsLoop (j + 1) ms ?f lf2 o2 y2 = Inr (fails', lf', oldest', youngest')"
      by (simp add: Let_def)
    from Cons.IH [OF this] show ?thesis
      by (simp add: failCount_def)
  qed
qed

lemma disksLoop_ages:
  "disksLoop e findAll disks oldest youngest = (err, oldest', youngest') \<Longrightarrow>
   oldest' = fold max (firstRowAges e findAll (scannedDisks e findAll disks)) oldest
   \<and> youngest' = fold min (firstRowAges e findAll (scannedDisks e findAll disks)) youngest"
proof (induction disks arbitrary: oldest youngest)
  case Nil
  then show ?case by (simp add: firstRowAges_def)
next
  case (Cons disk disks)
  show ?case
  proof (cases "smartctl e disk")
    case (Inl msg)
    with Cons.prems show ?thesis
      by (simp add: smartctl_def diskStops_def firstRowAges_def diskRows_def firstAge_def)
  next
    case (Inr status)
    let ?rows = "findAll status"
    let ?r = "rowsLoop 0 ?rows 0 [] oldest youngest"
    have ages: "agesOf ?r = (fold max (firstAge ?rows) oldest, fold min (firstAge ?rows) youngest)"
      by (rule rowsLoop_first)
    have rows: "diskRows e findAll disk = ?rows"
      by (simp add: diskRows_def Inr)
    show ?thesis
    proof (cases ?r)
      case (Inl t)
      then have "isl ?r" by simp
      then have stop: "diskStops e findAll disk"
        by (simp add: diskStops_def Inr rowsLoop_isl)
      obtain er o1 y1 where t: "t = (er, o1, y1)" by (cases t)
      from Cons.prems Inl t have "oldest' = o1" "youngest' = y1"
        using Inr by (simp_all add: smartctl_def)
      moreover from ages Inl t have "o1 = fold max (firstAge ?rows) oldest"
        "y1 = fold min (firstAge ?rows) youngest"
        by (simp_all add: agesOf_def)
      ultimately show ?thesis
        using stop by (simp add: firstRowAges_def rows)
    next
      case (Inr t)
      obtain fl lf o1 y1 where t: "t = (fl, lf, o1, y1)" by (cases t)
      from ages Inr t have o1: "o1 = fold max (firstAge ?rows) oldest"
        and y1: "y1 = fold min (firstAge ?rows) youngest"
        by (simp_all add: agesOf_def)
      from rowsLoop_fails [of 0 ?rows 0 "[]" oldest youngest fl lf o1 y1] Inr t
      have fl: "fl = failCount ?rows" by simp
      have noerr: "\<not> list_ex (\<lambda>m. isl (Atoi (snd m))) ?rows"
        using rowsLoop_isl [of 0 ?rows 0 "[]" oldest youngest] Inr by simp
      show ?thesis
      proof (cases "thresholdBreach fl (length ?rows)")
        case True
        then have stop: "diskStops e findAll disk"
          by (simp add: diskStops_def \<open>smartctl e disk = Inr status\<close> fl)
        from Cons.prems Inr t True have "oldest' = o1" "youngest' = y1"
          using \<open>smartctl e disk = Inr status\<close>
          by (simp_all add: smartctl_def thresholdBreach_def)
        then show ?thesis
          using stop o1 y1 by (simp add: firstRowAges_def rows)
      next
        case False
        then have nostop: "\<not> diskStops e findAll disk"
          using noerr by (simp add: diskStops_def \<open>smartctl e disk = Inr status\<close> fl)
        from Cons.prems Inr t False
        have "disksLoop e findAll disks o1 y1 = (err, oldest', youngest')"
          using \<open>smartctl e disk = Inr status\<close>
          by (simp add: smartctl_def thresholdBreach_def)
        from Cons.IH [OF this] show ?thesis
          using nostop o1 y1 by (simp add: firstRowAges_def rows)
      qed
    qed
  qed
qed


lemma digit_value_nonneg: "isDigit c \<Longrightarrow> (0::int) \<le> of_char c - 48"
  by (auto simp: isDigit_def)

lemma decimal_value_nonneg: "list_all isDigit ds \<Longrightarrow> 0 \<le> decimal_value ds"
proof -
  have "list_all isDigit ds \<Longrightarrow> 0 \<le> n \<Longrightarrow>
      0 \<le> foldl (\<lambda>n c. 10 * n + (of_char c - 48)) (n::int) ds" for n
  proof (induction ds arbitrary: n)
    case Nil
    then show ?case by simp
  next
    case (Cons c cs)
    from Cons.prems digit_value_nonneg [of c] have "0 \<le> 10 * n + (of_char c - 48)"
      by simp
    with Cons.IH [of "10 * n + (of_char c - 48)"] Cons.prems show ?case
      by simp
  qed
  then show "list_all isDigit ds \<Longrightarrow> 0 \<le> decimal_value ds"
    by (simp add: decimal_value_def)
qed

lemma Atoi_digits_nonneg:
  assumes "list_all isDigit s" and "Atoi s = Inr age"
  shows "0 \<le> age"
proof (cases s)
  case Nil
  with assms(2) show ?thesis
    by (simp add: Atoi_def ParseInt_def)
next
  case (Cons c cs)
  with assms(1) have "isDigit c" by simp
  then have nosign: "c \<noteq> CHR ''+''" "c \<noteq> CHR ''-''"
    by (auto simp: isDigit_def)
  from assms(2) nosign decimal_value_nonneg [OF assms(1)] show ?thesis
    by (auto simp: Atoi_def ParseInt_def Let_def Cons split: if_splits sum.splits scan_error.splits)
qed

lemma firstRowAges_nonneg:
  assumes "\<forall>status. \<forall>m\<in>set (findAll status). list_all isDigit (snd m)"
    and "a \<in> set (firstRowAges e findAll disks)"
  shows "0 \<le> a"
proof -
  from assms(2) obtain disk where "a \<in> set (firstAge (diskRows e findAll disk))"
    by (auto simp: firstRowAges_def)
  then obtain m ms where rows: "diskRows e findAll disk = m # ms" and a: "Atoi (snd m) = Inr a"
    by (cases "diskRows e findAll disk") (auto simp: firstAge_def split: sum.splits)
  from rows obtain status where "findAll status = m # ms"
    by (auto simp: diskRows_def split: sum.splits)
  then have "m \<in> set (findAll status)" by simp
  with assms(1) have "list_all isDigit (snd m)" by blast
  from Atoi_digits_nonneg [OF this a] show ?thesis .
qed

lemma fold_max_Max: "fold max xs (a::int) = Max (insert a (set xs))"
  using Max.set_eq_fold [of a xs] by simp

lemma fold_min_Min: "fold min xs (a::int) = Min (insert a (set xs))"
  using Min.set_eq_fold [of a xs] by simp

text \<open>
  Claim C7: the pattern's second group is made of digits. Let \<open>ages\<close> be the ages of the
  first rows of the disks that the loop works on, up to and including the disk where
  it ends (all six disks when it ends without an error), and let there be at least
  one. Then the youngest age returned is at most the oldest age returned, the oldest
  age is the maximum of \<open>ages\<close>, and the youngest age is the minimum of \<open>ages\<close>, capped by
  the initial value \<open>math.MaxInt32\<close>.
\<close>

theorem age_bounds:
  assumes digits: "\<forall>status. \<forall>m\<in>set (findAll status). list_all isDigit (snd m)"
    and result: "checkSmartStatus e findAll = (err, oldest, youngest)"
    and ages: "ages = firstRowAges e findAll (scannedDisks e findAll smartDisks)"
    and some: "ages \<noteq> []"
  shows "youngest \<le> oldest \<and> oldest = Max (set ages) \<and> youngest = min MaxInt32 (Min (set ages))"
proof -
  from result have "disksLoop e findAll smartDisks 0 MaxInt32 = (err, oldest, youngest)"
    by (simp add: checkSmartStatus_def)
  from disksLoop_ages [OF this]
  have o: "oldest = Max (insert 0 (set ages))" and y: "youngest = Min (insert MaxInt32 (set ages))"
    by (simp_all add: ages fold_max_Max fold_min_Min)
  have fin: "finite (set ages)" and ne: "set ages \<noteq> {}"
    using some by simp_all
  have nonneg: "\<forall>a\<in>set ages. 0 \<le> a"
    using firstRowAges_nonneg [OF digits] ages by blast
  have "0 \<le> Max (set ages)"
    using nonneg fin ne by (meson Max_in)
  then have o': "oldest = Max (set ages)"
    using o fin ne by (simp add: max_def)
  have y': "youngest = min MaxInt32 (Min (set ages))"
    using y fin ne by simp
  have "Min (set ages) \<le> Max (set ages)"
    using fin ne by (meson Max_in Min_le)
  with o' y' show ?thesis by simp
qed

theorem age_bounds_witness:
  "checkSmartStatus smartExec healthyRows = (None, 45000, 1500)
   \<and> firstRowAges smartExec healthyRows (scannedDisks smartExec healthyRows smartDisks)
       = [20911, 31000, 1500, 45000, 30000]
   \<and> (1500::int) \<le> 45000
   \<and> (45000::int) = Max (set [20911, 31000, 1500, 45000, 30000])
   \<and> (1500::int) = min MaxInt32 (Min (set [20911, 31000, 1500, 45000, 30000]))"
proof -
  have digits: "\<forall>status. \<forall>m\<in>set (healthyRows status). list_all isDigit (snd m)"
    by (simp add: healthyRows_def isDigit_def)
  have result: "checkSmartStatus smartExec healthyRows = (None, 45000, 1500)"
    by code_simp
  have ages: "[20911, 31000, 1500, 45000, 30000]
      = firstRowAges smartExec healthyRows (scannedDisks smartExec healthyRows smartDisks)"
    by code_simp
  have some: "[20911, 31000, 1500, 45000, 30000] \<noteq> ([]::int list)"
    by simp
  from age_bounds [OF digits result ages some] result ages show ?thesis
    by simp
qed

lemma no_breach_without_rows: "\<not> thresholdBreach 0 0"
  by code_simp


lemma disksLoop_no_rows:
  assumes "smartctl e disk = Inr status" and "findAll status = []"
  shows "disksLoop e findAll (disk # disks) oldest youngest = disksLoop e findAll disks oldest youngest"
  using assms no_breach_without_rows
  by (simp add: smartctl_def thresholdBreach_def)

lemma rowsLoop_Inl_Atoi:
  "rowsLoop j rows fails lf oldest youngest = Inl (err, oldest', youngest') \<Longrightarrow>
   \<exists>msg. err = AtoiError msg"
proof (induction rows arbitrary: j fails lf oldest youngest)
  case Nil
  then show ?case by simp
next
  case (Cons m ms)
  show ?case
  proof (cases "Atoi (snd m)")
    case (Inl e1)
    then have "\<exists>msg. e1 = AtoiError msg"
      by (auto simp: Atoi_def split: sum.splits scan_error.splits)
    with Cons.prems Inl show ?thesis by (simp add: Let_def)
  next
    case (Inr age)
    with Cons.prems obtain j2 f2 lf2 o2 y2 where
      "rowsLoop j2 ms f2 lf2 o2 y2 = Inl (err, oldest', youngest')"
      by (simp add: Let_def)
    from Cons.IH [OF this] show ?thesis .
  qed
qed

lemma disksLoop_SmartError:
  "disksLoop e findAll disks oldest youngest = (Some (SmartError d lf), oldest', youngest') \<Longrightarrow>
   \<exists>status. smartctl e d = Inr status \<and> findAll status \<noteq> []"
proof (induction disks arbitrary: oldest youngest)
  case Nil
  then show ?case by simp
next
  case (Cons disk disks)
  show ?case
  proof (cases "smartctl e disk")
    case (Inl msg)
    with Cons.prems show ?thesis by (simp add: smartctl_def)
  next
    case (Inr status)
    show ?thesis
    proof (cases "findAll status = []")
      case True
      from Cons.prems disksLoop_no_rows [where findAll = findAll, OF Inr True]
      have "disksLoop e findAll disks oldest youngest = (Some (SmartError d lf), oldest', youngest')"
        by simp
      from Cons.IH [OF this] show ?thesis .
    next
      case False
      show ?thesis
      proof (cases "rowsLoop 0 (findAll status) 0 [] oldest youngest")
        case (Inl t)
        obtain er o1 y1 where t: "t = (er, o1, y1)" by (cases t)
        from rowsLoop_Inl_Atoi [of 0 "findAll status" 0 "[]" oldest youngest er o1 y1] Inl t
        obtain msg where "er = AtoiError msg" by auto
        with Cons.prems Inr Inl t show ?thesis by (simp add: smartctl_def)
      next
        case (Inr t)
        obtain fl lf1 o1 y1 where t: "t = (fl, lf1, o1, y1)" by (cases t)
        show ?thesis
        proof (cases "thresholdBreach fl (length (findAll status))")
          case True
          with Cons.prems Inr t \<open>smartctl e disk = Inr status\<close> have "d = disk"
            by (simp add: smartctl_def thresholdBreach_def)
          with False \<open>smartctl e disk = Inr status\<close> show ?thesis by auto
        next
          case nb: False
          with Cons.prems Inr t \<open>smartctl e disk = Inr status\<close>
          have "disksLoop e findAll disks o1 y1 = (Some (SmartError d lf), oldest', youngest')"
            by (simp add: smartctl_def thresholdBreach_def)
          from Cons.IH [OF this] show ?thesis .
        qed
      qed
    qed
  qed
qed

lemma disksLoop_all_empty:
  "\<forall>d\<in>set disks. \<exists>st. smartctl e d = Inr st \<and> findAll st = [] \<Longrightarrow>
   disksLoop e findAll disks oldest youngest = (None, oldest, youngest)"
proof (induction disks)
  case Nil
  show ?case by simp
next
  case (Cons disk disks)
  then obtain st where "smartctl e disk = Inr st" "findAll st = []" by auto
  from disksLoop_no_rows [where findAll = findAll, OF this] Cons show ?case by simp
qed

text \<open>
  Claim C10: a disk whose log has no row never makes the analyzer fail with the smart
  error of that disk, and the loop goes on after it with the oldest and the youngest
  age unchanged; and when no disk of the fixed set has a row, the analyzer returns no
  error, the oldest age 0 and the youngest age 2147483647.
\<close>

theorem empty_log_no_breach:
  assumes "smartctl e disk = Inr status" and "findAll status = []"
  shows "(\<forall>lf. fst (checkSmartStatus e findAll) \<noteq> Some (SmartError disk lf))
       \<and> (\<forall>disks oldest youngest.
             disksLoop e findAll (disk # disks) oldest youngest
               = disksLoop e findAll disks oldest youngest)
       \<and> ((\<forall>d\<in>set smartDisks. \<exists>st. smartctl e d = Inr st \<and> findAll st = []) \<longrightarrow>
             checkSmartStatus e findAll = (None, 0, 2147483647))"
proof (intro conjI allI impI)
  fix lf
  show "fst (checkSmartStatus e findAll) \<noteq> Some (SmartError disk lf)"
  proof
    assume a: "fst (checkSmartStatus e findAll) = Some (SmartError disk lf)"
    obtain er o1 y1 where r: "checkSmartStatus e findAll = (er, o1, y1)"
      by (cases "checkSmartStatus e findAll")
    with a have "disksLoop e findAll smartDisks 0 MaxInt32 = (Some (SmartError disk lf), o1, y1)"
      by (simp add: checkSmartStatus_def)
    from disksLoop_SmartError [OF this] assms show False by simp
  qed
next
  fix disks oldest youngest
  show "disksLoop e findAll (disk # disks) oldest youngest
          = disksLoop e findAll disks oldest youngest"
    by (rule disksLoop_no_rows [where findAll = findAll, OF assms])
next
  assume "\<forall>d\<in>set smartDisks. \<exists>st. smartctl e d = Inr st \<and> findAll st = []"
  from disksLoop_all_empty [OF this] show "checkSmartStatus e findAll = (None, 0, 2147483647)"
    by (simp add: checkSmartStatus_def MaxInt32_def)
qed

theorem empty_log_no_breach_witness:
  "checkSmartStatus smartExec (\<lambda>status. []) = (None, 0, 2147483647)"
proof -
  have h1: "smartctl smartExec ''sda'' = Inr ''self-test log of /dev/sda''"
    by (simp add: smartctl_def smartExec_def)
  have h2: "(\<lambda>status. []) ''self-test log of /dev/sda'' = ([]::(string \<times> string) list)"
    by simp
  have all: "\<forall>d\<in>set smartDisks. \<exists>st. smartctl smartExec d = Inr st
      \<and> (\<lambda>status. []) st = ([]::(string \<times> string) list)"
    by (simp add: smartctl_def smartExec_def)
  from empty_log_no_breach [where findAll = "\<lambda>status. []", OF h1 h2] all show ?thesis
    by blast
qed

subsection \<open>The threshold in single precision\<close>

text \<open>
  For fewer than \<open>2\<^sup>2\<^sup>4\<close> rows the numbers of failures and of rows are single-precision
  values, and the rounded quotient reaches the rounded threshold exactly when the
  failures are at least a twentieth of the rows.
\<close>

lemma bit_length_bounds:
  "0 < p \<Longrightarrow> 1 \<le> bit_length p \<and> 2 ^ nat (bit_length p - 1) \<le> p \<and> p < 2 ^ nat (bit_length p)"
proof (induction p rule: bit_length.induct)
  case (1 n)
  show ?case
  proof (cases "n div 2 = 0")
    case True
    with "1.prems" have "n = 1" by auto
    then show ?thesis
      by (simp add: bit_length.simps [of 1] bit_length.simps [of 0])
  next
    case False
    with "1.prems" have pos: "0 < n div 2" by auto
    from "1.IH" [OF _ pos] "1.prems"
    have ih: "1 \<le> bit_length (n div 2)"
      "2 ^ nat (bit_length (n div 2) - 1) \<le> n div 2"
      "n div 2 < 2 ^ nat (bit_length (n div 2))"
      by auto
    have bl: "bit_length n = 1 + bit_length (n div 2)"
      using "1.prems" by (simp add: bit_length.simps [of n])
    have e: "nat (bit_length (n div 2)) = Suc (nat (bit_length (n div 2) - 1))"
      using ih(1) by simp
    have lo: "(2::int) ^ nat (bit_length (n div 2)) \<le> n"
    proof -
      have "(2::int) ^ nat (bit_length (n div 2)) = 2 * 2 ^ nat (bit_length (n div 2) - 1)"
        by (subst e) simp
      also have "\<dots> \<le> 2 * (n div 2)" using ih(2) by simp
      also have "\<dots> \<le> n" by simp
      finally show ?thesis .
    qed
    have hi: "n < 2 * 2 ^ nat (bit_length (n div 2))"
    proof -
      have "n div 2 + 1 \<le> 2 ^ nat (bit_length (n div 2))" using ih(3) by simp
      moreover have "n < 2 * (n div 2 + 1)" by simp
      ultimately show ?thesis by linarith
    qed
    show ?thesis
      using ih(1) lo hi by (simp add: bl nat_add_distrib)
  qed
qed

lemma round_half_even_ge: "of_int N - 1 / 2 < x \<Longrightarrow> N \<le> round_half_even x"
  unfolding round_half_even_def Let_def
  by (auto split: if_splits) linarith+


lemma round_half_even_lt: "x < of_int N - 1 / 2 \<Longrightarrow> round_half_even x < N"
  unfolding round_half_even_def Let_def
  by (auto split: if_splits) linarith+

lemma round_half_even_of_int: "round_half_even (of_int n) = n"
  by (simp add: round_half_even_def)

lemma round_half_even_le: "x \<le> of_int N \<Longrightarrow> round_half_even x \<le> N"
  using round_half_even_lt [of x "N + 1"] by simp

lemma round_half_even_ge_int: "of_int N \<le> x \<Longrightarrow> N \<le> round_half_even x"
  using round_half_even_ge [of N x] by simp

lemma two_powi_pos: "0 < (2::rat) powi k"
  by (simp add: power_int_def)

lemma two_powi_add: "(2::rat) powi (a + b) = 2 powi a * 2 powi b"
  by (simp add: power_int_add)

lemma two_powi_mono: "a \<le> b \<Longrightarrow> (2::rat) powi a \<le> 2 powi b"
  by (simp add: power_int_increasing)

lemma two_powi_nat: "(2::rat) powi int n = 2 ^ n"
  by simp

lemma ilog2_bounds:
  assumes "0 < x"
  shows "2 powi (ilog2 x) \<le> x \<and> x < 2 powi (ilog2 x + 1)"
proof -
  obtain p q where pq: "quotient_of x = (p, q)" by (cases "quotient_of x")
  then have q: "0 < q" and x: "x = of_int p / of_int q"
    using quotient_of_denom_pos [OF pq] quotient_of_div [OF pq] by simp_all
  from assms x q have p: "0 < p"
    by (simp add: zero_less_divide_iff)
  let ?bp = "bit_length p" and ?bq = "bit_length q"
  let ?k = "?bp - ?bq"
  from bit_length_bounds [OF p] bit_length_bounds [OF q]
  have bp: "1 \<le> ?bp" "2 ^ nat (?bp - 1) \<le> p" "p < 2 ^ nat ?bp"
    and bq: "1 \<le> ?bq" "2 ^ nat (?bq - 1) \<le> q" "q < 2 ^ nat ?bq"
    by simp_all
  have P1: "(2::rat) powi (?bp - 1) \<le> of_int p"
  proof -
    have "(2::rat) powi (?bp - 1) = 2 ^ nat (?bp - 1)"
      using bp(1) by (simp add: power_int_def)
    also have "\<dots> = of_int (2 ^ nat (?bp - 1))" by simp
    also have "\<dots> \<le> of_int p" using bp(2) by (simp only: of_int_le_iff)
    finally show ?thesis .
  qed
  have P2: "of_int p < (2::rat) powi ?bp"
  proof -
    have "(of_int p :: rat) < of_int (2 ^ nat ?bp)" using bp(3) by (simp only: of_int_less_iff)
    also have "\<dots> = 2 ^ nat ?bp" by simp
    also have "\<dots> = 2 powi ?bp" using bp(1) by (simp add: power_int_def)
    finally show ?thesis .
  qed
  have Q1: "(2::rat) powi (?bq - 1) \<le> of_int q"
  proof -
    have "(2::rat) powi (?bq - 1) = 2 ^ nat (?bq - 1)"
      using bq(1) by (simp add: power_int_def)
    also have "\<dots> = of_int (2 ^ nat (?bq - 1))" by simp
    also have "\<dots> \<le> of_int q" using bq(2) by (simp only: of_int_le_iff)
    finally show ?thesis .
  qed
  have Q2: "of_int q < (2::rat) powi ?bq"
  proof -
    have "(of_int q :: rat) < of_int (2 ^ nat ?bq)" using bq(3) by (simp only: of_int_less_iff)
    also have "\<dots> = 2 ^ nat ?bq" by simp
    also have "\<dots> = 2 powi ?bq" using bq(1) by (simp add: power_int_def)
    finally show ?thesis .
  qed
  have qpos: "(0::rat) < of_int q" using q by simp
  have lower: "2 powi (?k - 1) < x"
  proof -
    have "(2::rat) powi (?k - 1) * of_int q < 2 powi (?k - 1) * 2 powi ?bq"
      using Q2 two_powi_pos [of "?k - 1"] by simp
    also have "\<dots> = 2 powi (?bp - 1)"
      by (simp add: two_powi_add [symmetric])
    also have "\<dots> \<le> of_int p" by (rule P1)
    finally show ?thesis
      using qpos by (simp add: x pos_less_divide_eq)
  qed
  have upper: "x < 2 powi (?k + 1)"
  proof -
    have "(of_int p :: rat) < 2 powi ?bp" by (rule P2)
    also have "\<dots> = 2 powi (?k + 1) * 2 powi (?bq - 1)"
      by (simp add: two_powi_add [symmetric])
    also have "\<dots> \<le> 2 powi (?k + 1) * of_int q"
      using Q1 two_powi_pos [of "?k + 1"] by simp
    finally show ?thesis
      using qpos by (simp add: x pos_divide_less_eq)
  qed
  show ?thesis
  proof (cases "2 powi ?k \<le> x")
    case True
    then have "ilog2 x = ?k" by (simp add: ilog2_def pq)
    with True upper show ?thesis by simp
  next
    case False
    then have "ilog2 x = ?k - 1" by (simp add: ilog2_def pq)
    with False lower show ?thesis by simp
  qed
qed

lemma ilog2_unique:
  assumes "2 powi k \<le> x" and "x < 2 powi (k + 1)"
  shows "ilog2 x = k"
proof -
  have pos: "0 < x" using assms(1) two_powi_pos [of k] by linarith
  from ilog2_bounds [OF pos] have b: "2 powi (ilog2 x) \<le> x" "x < 2 powi (ilog2 x + 1)"
    by simp_all
  have "\<not> ilog2 x < k"
  proof
    assume "ilog2 x < k"
    then have "ilog2 x + 1 \<le> k" by simp
    from two_powi_mono [OF this] b(2) assms(1) show False by linarith
  qed
  moreover have "\<not> k < ilog2 x"
  proof
    assume "k < ilog2 x"
    then have "k + 1 \<le> ilog2 x" by simp
    from two_powi_mono [OF this] b(1) assms(2) show False by linarith
  qed
  ultimately show ?thesis by simp
qed


lemma float32_of_rat_binade:
  assumes lo: "2 powi k \<le> x" and hi: "x < 2 powi (k + 1)" and k: "- 126 \<le> k" "k < 127"
  shows "float32_of_rat x = F32 (of_int (round_half_even (x / 2 powi (k - 23))) * 2 powi (k - 23))"
    and "round_half_even (x / 2 powi (k - 23)) \<le> 2 ^ 24"
    and "2 ^ 23 \<le> round_half_even (x / 2 powi (k - 23))"
proof -
  let ?u = "(2::rat) powi (k - 23)"
  let ?m = "round_half_even (x / ?u)"
  have upos: "0 < ?u" by (rule two_powi_pos)
  have pos: "0 < x" using lo two_powi_pos [of k] by linarith
  have il: "ilog2 x = k" by (rule ilog2_unique [OF lo hi])
  have "x / ?u < 2 powi (k + 1) / ?u"
    using hi upos by (simp add: divide_strict_right_mono)
  also have "2 powi (k + 1) / ?u = (2::rat) powi 24"
    by (simp add: power_int_diff [symmetric])
  finally have "x / ?u \<le> of_int (2 ^ 24)" by simp
  from round_half_even_le [OF this] show m_hi: "?m \<le> 2 ^ 24" .
  have "(2::rat) powi 23 = 2 powi k / ?u"
    by (simp add: power_int_diff [symmetric])
  also have "\<dots> \<le> x / ?u"
    using lo upos by (simp add: divide_right_mono)
  finally have "of_int (2 ^ 23) \<le> x / ?u" by simp
  from round_half_even_ge_int [OF this] show m_lo: "2 ^ 23 \<le> ?m" .
  have "(of_int ?m :: rat) \<le> of_int (2 ^ 24)"
    using m_hi by (simp only: of_int_le_iff)
  then have "of_int ?m * ?u \<le> of_int (2 ^ 24) * ?u"
    using upos by (intro mult_right_mono) simp_all
  also have "of_int (2 ^ 24) * ?u = (2::rat) powi (k + 1)"
  proof -
    have "(2::rat) powi (k + 1) = 2 powi (24 + (k - 23))"
      by (rule arg_cong [where f = "\<lambda>n. 2 powi n"]) simp
    also have "\<dots> = 2 powi 24 * ?u"
      by (rule two_powi_add)
    finally show ?thesis by simp
  qed
  also have "\<dots> \<le> 2 powi 127"
    using k by (intro two_powi_mono) simp
  also have "\<dots> < 2 ^ 128" by simp
  finally have no_over: "\<not> 2 ^ 128 \<le> of_int ?m * ?u" by simp
  have e: "max (k - 23) (- 149) = k - 23" using k by simp
  show "float32_of_rat x = F32 (of_int ?m * ?u)"
    using pos no_over by (simp add: float32_of_rat_def il e Let_def)
qed

lemma float32_of_int_exact:
  assumes "0 \<le> i" and "i < 2 ^ 24"
  shows "float32_of_int i = F32 (of_int i)"
proof (cases "i = 0")
  case True
  then show ?thesis by (simp add: float32_of_int_def float32_of_rat_def)
next
  case False
  with assms have pos: "0 < i" by simp
  let ?x = "of_int i :: rat"
  let ?k = "ilog2 ?x"
  have xpos: "0 < ?x" using pos by simp
  from ilog2_bounds [OF xpos] have b: "2 powi ?k \<le> ?x" "?x < 2 powi (?k + 1)"
    by simp_all
  have k0: "0 \<le> ?k"
  proof (rule ccontr)
    assume "\<not> 0 \<le> ?k"
    then have "?k + 1 \<le> 0" by simp
    from two_powi_mono [OF this] b(2) have "?x < 1" by simp
    with pos show False by simp
  qed
  have k23: "?k \<le> 23"
  proof (rule ccontr)
    assume "\<not> ?k \<le> 23"
    then have "24 \<le> ?k" by simp
    from two_powi_mono [OF this] b(1) have "(2::rat) ^ 24 \<le> ?x" by simp
    then have "(of_int (2 ^ 24) :: rat) \<le> of_int i" by simp
    then have "2 ^ 24 \<le> i" by (simp only: of_int_le_iff)
    with assms(2) show False by simp
  qed
  have u: "(1::rat) / 2 powi (?k - 23) = of_int (2 ^ nat (23 - ?k))"
  proof -
    have "(1::rat) / 2 powi (?k - 23) = 2 powi (23 - ?k)"
      by (simp add: power_int_diff divide_simps)
    also have "\<dots> = 2 ^ nat (23 - ?k)"
      using k23 by (simp add: power_int_def)
    finally show ?thesis by simp
  qed
  have q: "?x / 2 powi (?k - 23) = of_int (i * 2 ^ nat (23 - ?k))"
    using u by (simp add: field_simps)
  have m: "round_half_even (?x / 2 powi (?k - 23)) = i * 2 ^ nat (23 - ?k)"
    unfolding q by (rule round_half_even_of_int)
  have "of_int (i * 2 ^ nat (23 - ?k)) * (2::rat) powi (?k - 23) = ?x"
    using q two_powi_pos [of "?k - 23"] by (simp add: field_simps)
  with float32_of_rat_binade(1) [OF b] k0 k23 show ?thesis
    by (simp add: float32_of_int_def m)
qed


lemma two_powi_neg24: "(2::rat) powi (- 24) = 1 / 2 ^ 24"
  by (simp add: power_int_minus inverse_eq_divide)

lemma two_powi_neg4: "(2::rat) powi (- 4) = 1 / 16"
  by (simp add: power_int_minus inverse_eq_divide)

lemma two_powi_neg5: "(2::rat) powi (- 5) = 1 / 32"
  by (simp add: power_int_minus inverse_eq_divide)

lemma two_powi_neg28: "(2::rat) powi (- 5 - 23) = 1 / 2 ^ 28"
  by (simp add: power_int_minus inverse_eq_divide)

lemma float32_threshold: "float32_of_rat smartThreshold = F32 (13421773 / 2 ^ 28)"
  by code_simp

lemma thresholdBreach_iff:
  assumes f0: "0 \<le> fails" and fn: "fails \<le> int n" and n24: "n < 2 ^ 24"
  shows "thresholdBreach fails n \<longleftrightarrow> 0 < n \<and> int n \<le> 20 * fails"
proof -
  have fi: "float32_of_int fails = F32 (of_int fails)"
    using f0 fn n24 by (intro float32_of_int_exact) simp_all
  have ni: "float32_of_int (int n) = F32 (of_int (int n))"
    using n24 by (intro float32_of_int_exact) simp_all
  show ?thesis
  proof (cases "n = 0")
    case True
    with fn f0 have "fails = 0" by simp
    with True no_breach_without_rows show ?thesis
      by simp
  next
    case False
    then have npos: "0 < n" by simp
    show ?thesis
    proof (cases "fails = 0")
      case True
      have z: "float32_of_rat 0 = F32 0"
        by (simp add: float32_of_rat_def)
      have "float32_div (F32 0) (F32 (of_int (int n))) = F32 0"
        using npos by (simp add: z)
      then show ?thesis
        using npos True fi by (simp add: thresholdBreach_def ni float32_threshold)
    next
      case False
      with f0 have fpos: "0 < fails" by simp
      let ?x = "of_int fails / of_int (int n) :: rat"
      have nr: "(0::rat) < of_int (int n)" using npos by simp
      have xpos: "0 < ?x" using fpos nr by simp
      have x1: "?x \<le> 1" using fn nr by (simp add: pos_divide_le_eq)
      have xlow: "1 / 2 ^ 24 < ?x"
      proof -
        have "(of_int (int n) :: rat) < of_int (2 ^ 24)"
          using n24 by (simp only: of_int_less_iff) simp
        then have "(1::rat) / 2 ^ 24 < 1 / of_int (int n)"
          using nr by (simp add: divide_simps)
        also have "\<dots> \<le> ?x"
          using fpos nr by (simp add: divide_simps)
        finally show ?thesis .
      qed
      let ?k = "ilog2 ?x"
      from ilog2_bounds [OF xpos] have b: "2 powi ?k \<le> ?x" "?x < 2 powi (?k + 1)"
        by simp_all
      have khi: "?k \<le> 0"
      proof (rule ccontr)
        assume "\<not> ?k \<le> 0"
        then have "1 \<le> ?k" by simp
        from two_powi_mono [OF this] b(1) x1 show False by simp
      qed
      have klo: "- 24 \<le> ?k"
      proof (rule ccontr)
        assume "\<not> - 24 \<le> ?k"
        then have "?k + 1 \<le> - 24" by simp
        from two_powi_mono [OF this] have "(2::rat) powi (?k + 1) \<le> 1 / 2 ^ 24"
          by (simp only: two_powi_neg24)
        with b(2) xlow show False by linarith
      qed
      let ?u = "(2::rat) powi (?k - 23)"
      let ?m = "round_half_even (?x / ?u)"
      have upos: "0 < ?u" by (rule two_powi_pos)
      from float32_of_rat_binade [OF b] klo khi
      have fl: "float32_of_rat ?x = F32 (of_int ?m * ?u)"
        and mhi: "?m \<le> 2 ^ 24" and mlo: "2 ^ 23 \<le> ?m"
        by simp_all
      have d: "float32_div (F32 (of_int fails)) (F32 (of_int (int n))) = float32_of_rat ?x"
        using nr by simp
      have "thresholdBreach fails n
          = float32_ge (float32_of_rat ?x) (F32 (13421773 / 2 ^ 28))"
        unfolding thresholdBreach_def fi ni float32_threshold d ..
      also have "\<dots> = float32_ge (F32 (of_int ?m * ?u)) (F32 (13421773 / 2 ^ 28))"
        by (simp only: fl)
      also have "\<dots> \<longleftrightarrow> 13421773 / 2 ^ 28 \<le> of_int ?m * ?u"
        by (simp only: float32_ge.simps)
      finally have breach:
        "thresholdBreach fails n \<longleftrightarrow> 13421773 / 2 ^ 28 \<le> of_int ?m * ?u" .
      have rhs: "(0 < n \<and> int n \<le> 20 * fails) \<longleftrightarrow> 1 / 20 \<le> ?x"
      proof -
        have "(1 / 20 \<le> ?x) \<longleftrightarrow> (of_int (int n) :: rat) \<le> of_int (20 * fails)"
          using nr by (simp add: divide_simps mult.commute)
        also have "\<dots> \<longleftrightarrow> int n \<le> 20 * fails"
          by (simp only: of_int_le_iff)
        finally show ?thesis using npos by simp
      qed
      have u23: "of_int (2 ^ 23) * ?u = (2::rat) powi ?k"
      proof -
        have "(2::rat) powi ?k = 2 powi (23 + (?k - 23))"
          by (rule arg_cong [where f = "\<lambda>n. 2 powi n"]) simp
        also have "\<dots> = 2 powi 23 * ?u" by (rule two_powi_add)
        finally show ?thesis by simp
      qed
      have u24: "of_int (2 ^ 24) * ?u = (2::rat) powi (?k + 1)"
      proof -
        have "(2::rat) powi (?k + 1) = 2 powi (24 + (?k - 23))"
          by (rule arg_cong [where f = "\<lambda>n. 2 powi n"]) simp
        also have "\<dots> = 2 powi 24 * ?u" by (rule two_powi_add)
        finally show ?thesis by simp
      qed
      have mu_lo: "2 powi ?k \<le> of_int ?m * ?u"
      proof -
        have "(of_int (2 ^ 23) :: rat) \<le> of_int ?m"
          using mlo by (simp only: of_int_le_iff)
        then have "of_int (2 ^ 23) * ?u \<le> of_int ?m * ?u"
          using upos by (intro mult_right_mono) simp_all
        then show ?thesis by (simp only: u23)
      qed
      have mu_hi: "of_int ?m * ?u \<le> 2 powi (?k + 1)"
      proof -
        have "(of_int ?m :: rat) \<le> of_int (2 ^ 24)"
          using mhi by (simp only: of_int_le_iff)
        then have "of_int ?m * ?u \<le> of_int (2 ^ 24) * ?u"
          using upos by (intro mult_right_mono) simp_all
        then show ?thesis by (simp only: u24)
      qed
      consider "- 4 \<le> ?k" | "?k \<le> - 6" | "?k = - 5" by linarith
      then show ?thesis
      proof cases
        case 1
        from two_powi_mono [OF 1] have p: "(1::rat) / 16 \<le> 2 powi ?k"
          by (simp only: two_powi_neg4)
        have "13421773 / 2 ^ 28 \<le> of_int ?m * ?u"
          using p mu_lo by simp
        moreover have "1 / 20 \<le> ?x" using p b(1) by simp
        ultimately show ?thesis by (simp only: breach rhs)
      next
        case 2
        then have "?k + 1 \<le> - 5" by simp
        from two_powi_mono [OF this] have p: "2 powi (?k + 1) \<le> (1::rat) / 32"
          by (simp only: two_powi_neg5)
        have "\<not> 13421773 / 2 ^ 28 \<le> of_int ?m * ?u"
          using p mu_hi by simp
        moreover have "\<not> 1 / 20 \<le> ?x" using p b(2) by simp
        ultimately show ?thesis by (simp only: breach rhs)
      next
        case 3
        then have u: "?u = 1 / 2 ^ 28" by (simp only: two_powi_neg28)
        have xu: "?x / ?u = ?x * 2 ^ 28" unfolding u by simp
        have br: "(13421773 / 2 ^ 28 \<le> of_int ?m * ?u) \<longleftrightarrow> 13421773 \<le> ?m"
        proof -
          have "(13421773 / 2 ^ 28 \<le> of_int ?m * ?u) \<longleftrightarrow> (of_int 13421773 :: rat) \<le> of_int ?m"
            unfolding u by simp
          also have "\<dots> \<longleftrightarrow> 13421773 \<le> ?m" by (simp only: of_int_le_iff)
          finally show ?thesis .
        qed
        have p28: "(2::rat) ^ 28 = 268435456" by simp
        show ?thesis
        proof (cases "1 / 20 \<le> ?x")
          case True
          then have "13421773 - 1 / 2 < ?x * 268435456" by linarith
          then have "13421773 - 1 / 2 < ?x / ?u" by (simp only: xu p28)
          then have "of_int 13421773 - 1 / 2 < ?x / ?u" by (simp only: of_int_numeral)
          from round_half_even_ge [OF this] True show ?thesis
            by (simp only: breach rhs br)
        next
          case False
          then have "\<not> int n \<le> 20 * fails" using rhs npos by blast
          then have "20 * fails + 1 \<le> int n" by simp
          then have "(of_int (20 * fails + 1) :: rat) \<le> of_int (int n)"
            by (simp only: of_int_le_iff)
          then have le: "20 * of_int fails + 1 \<le> (of_int (int n) :: rat)" by simp
          have nlt: "(of_int (int n) :: rat) < 16777216"
          proof -
            have "int n < 16777216" using n24 by simp
            then have "(of_int (int n) :: rat) < of_int 16777216" by (simp only: of_int_less_iff)
            then show ?thesis by (simp only: of_int_numeral)
          qed
          have "2 * (of_int fails * 268435456) < 26843545 * (of_int (int n) :: rat)"
            using le nlt by linarith
          then have "?x * 268435456 < 13421773 - 1 / 2"
            using nr by (simp add: divide_simps)
          then have "?x / ?u < 13421773 - 1 / 2" by (simp only: xu p28)
          then have "?x / ?u < of_int 13421773 - 1 / 2" by (simp only: of_int_numeral)
          from round_half_even_lt [OF this] have "\<not> 13421773 \<le> ?m" by simp
          with False show ?thesis
            by (simp only: breach rhs br)
        qed
      qed
    qed
  qed
qed


subsection \<open>A disk over the threshold\<close>

text \<open>
  When the ages of a disk's rows all parse and at least a twentieth of its rows fail,
  the loop over the disks ends at this disk with its smart error, which carries the
  description of the last failing row.
\<close>

lemma rowsLoop_latestFail:
  "rowsLoop j rows fails lf oldest youngest = Inr (fails', lf', oldest', youngest') \<Longrightarrow>
   lf' = (if filter (\<lambda>m. fst m \<noteq> ''Completed without error'') rows = [] then lf
          else lastFail rows)"
proof (induction rows arbitrary: j fails lf oldest youngest)
  case Nil
  then show ?case by simp
next
  case (Cons m ms)
  let ?bad = "\<lambda>m. fst m \<noteq> ''Completed without error''"
  show ?case
  proof (cases "Atoi (snd m)")
    case (Inl err)
    with Cons.prems show ?thesis by (simp add: Let_def)
  next
    case (Inr age)
    let ?lf = "if ?bad m then fst m else lf"
    from Cons.prems Inr obtain f2 o2 y2 where
      "rowsLoop (j + 1) ms f2 ?lf o2 y2 = Inr (fails', lf', oldest', youngest')"
      by (simp add: Let_def)
    from Cons.IH [OF this]
    have ih: "lf' = (if filter ?bad ms = [] then ?lf else lastFail ms)" .
    show ?thesis
    proof (cases "filter ?bad ms = []")
      case True
      with ih show ?thesis by (simp add: lastFail_def)
    next
      case False
      then have "rev (filter ?bad ms) \<noteq> []" by simp
      then obtain x xs where r: "rev (filter ?bad ms) = x # xs"
        by (cases "rev (filter ?bad ms)") auto
      then have "lastFail (m # ms) = lastFail ms"
        by (simp add: lastFail_def)
      with ih False show ?thesis by simp
    qed
  qed
qed

lemma failCount_bounds: "0 \<le> failCount rows \<and> failCount rows \<le> int (length rows)"
  by (simp add: failCount_def)

lemma breach_reports_last_failing_row:
  assumes exec: "smartctl e disk = Inr status"
    and ages: "\<not> list_ex (\<lambda>m. isl (Atoi (snd m))) (findAll status)"
    and size: "length (findAll status) < 2 ^ 24"
    and ratio: "findAll status \<noteq> []"
      "int (length (findAll status)) \<le> 20 * failCount (findAll status)"
  shows "\<exists>oldest' youngest'.
           disksLoop e findAll (disk # disks) oldest youngest
             = (Some (SmartError disk (lastFail (findAll status))), oldest', youngest')"
proof -
  let ?rows = "findAll status"
  let ?r = "rowsLoop 0 ?rows 0 [] oldest youngest"
  from ages have "\<not> isl ?r" by (simp add: rowsLoop_isl)
  then obtain fl lf o1 y1 where r: "?r = Inr (fl, lf, o1, y1)"
    by (cases ?r) auto
  from rowsLoop_fails [OF r] have fl: "fl = failCount ?rows" by simp
  have "0 < failCount ?rows" using ratio by (cases ?rows) auto
  then have "filter (\<lambda>m. fst m \<noteq> ''Completed without error'') ?rows \<noteq> []"
    by (auto simp: failCount_def)
  with rowsLoop_latestFail [OF r] have lf: "lf = lastFail ?rows" by simp
  have "thresholdBreach (failCount ?rows) (length ?rows)"
    using thresholdBreach_iff [OF _ _ size, of "failCount ?rows"] failCount_bounds [of ?rows] ratio
    by simp
  then show ?thesis
    using exec r fl lf by (simp add: smartctl_def)
qed

text \<open>
  Claim C3 says that the error of a disk over the threshold carries the description of
  the most recent failing row, which is the first failing row of the log. The loop over
  the rows assigns \<open>latestFail\<close> at every failing row, so the description of the last
  failing row is the one left: the log of the second disk of the sample fails with
  \<open>Completed: read failure\<close> in its first row and with \<open>Aborted by host\<close> in its third,
  and the error names \<open>Aborted by host\<close>. The disks after it are not examined, and the
  ages returned are those of the first rows of the first two disks.
\<close>

theorem latest_fail_is_last_failing_row:
  "sampleRows smartLogFailing
     = [(''Completed: read failure'', ''31000''), (''Completed without error'', ''30976''),
        (''Aborted by host'', ''30952'')]
   \<and> checkSmartStatus failingExec sampleRows
     = (Some (SmartError ''sdb'' ''Aborted by host''), 31000, 20911)"
  by code_simp

end
